theory Spec2Isabelle
  imports Main
begin

section \<open>The social network store: data model\<close>

text \<open>
  The notebook \<^verbatim>\<open>create_database\<close> declares four tables: \<^verbatim>\<open>people\<close> (primary key
  \<^verbatim>\<open>id\<close>), \<^verbatim>\<open>clubs\<close> (primary key \<^verbatim>\<open>id\<close>, assigned by the engine), and the two
  association tables \<^verbatim>\<open>friendships (person_id, friend_id)\<close> and
  \<^verbatim>\<open>club_members (person_id, club_id)\<close>, each with both columns as its primary key.
  A table is the list of its rows in the order they were inserted. The queries have no
  ORDER BY, so the order of their results is the order in which the engine (SQLite) reads
  the rows: \<^verbatim>\<open>people\<close> by rowid, which is its integer primary key \<^verbatim>\<open>id\<close>;
  the friends of a person through the primary-key index of \<^verbatim>\<open>friendships\<close>, by
  \<^verbatim>\<open>friend_id\<close>; the members of a club from \<^verbatim>\<open>club_members\<close> in the order of
  insertion. An integer column holds a signed 64-bit value. The store is the committed
  content of the four tables; an object that was added to the session and never flushed
  is not in it. The column \<^verbatim>\<open>id\<close> of a person is the field \<open>pid\<close> and that of a club
  the field \<open>cid\<close> (\<open>id\<close> is the identity function of HOL).
\<close>

record person =
  pid :: int
  name :: string
  age :: int
  gender :: string
  location :: string

record club =
  cid :: int
  description :: string

record database =
  people :: "person list"
  clubs :: "club list"
  friendships :: "(int \<times> int) list"
  club_members :: "(int \<times> int) list"

definition empty_db :: database where
  "empty_db = \<lparr>people = [], clubs = [], friendships = [], club_members = []\<rparr>"

text \<open>A scan of \<^verbatim>\<open>people\<close>: the rows by id.\<close>

definition people_by_id :: "database \<Rightarrow> person list" where
  "people_by_id db = sort_key pid (people db)"

text \<open>The integers a column of the engine can hold.\<close>

definition int64 :: "int \<Rightarrow> bool" where
  "int64 i \<longleftrightarrow> - (2 ^ 63) \<le> i \<and> i < 2 ^ 63"

text \<open>
  The data frame \<^verbatim>\<open>pd.read_csv\<close> returns: the columns the file has and its rows. A cell
  has the type the notebook documents for its column (\<^verbatim>\<open>Clubs\<close> a list of strings,
  \<^verbatim>\<open>Friendships\<close> a list of ids, both already converted by \<^verbatim>\<open>eval\<close>); the field of a
  column the file does not have is never read.
\<close>

record row =
  ID :: int
  Name :: string
  Surname :: string
  Age :: int
  Gender :: string
  Location :: string
  Clubs :: "string list"
  Friendships :: "int list"

record dataframe =
  columns :: "string list"
  rows :: "row list"

text \<open>
  The exceptions the load can raise: \<^verbatim>\<open>KeyError\<close> for a column the frame lacks,
  \<^verbatim>\<open>KeyError\<close> for an id missing from \<^verbatim>\<open>people_dict\<close>, the engine's
  \<^verbatim>\<open>IntegrityError\<close> for a repeated primary key (with the constraint's columns),
  \<^verbatim>\<open>OverflowError\<close> for an integer that does not fit a column, and whatever
  \<^verbatim>\<open>pd.read_csv\<close> raises (no such file, a list literal \<^verbatim>\<open>eval\<close> rejects).
\<close>

datatype py_error =
  KeyError string
  | KeyErrorId int
  | IntegrityError string
  | OverflowError
  | ReadError string

section \<open>load_data_from_csv\<close>

text \<open>
  Step 1 of the load deletes every row of the four tables and commits. The statements
  are unconditional deletes on tables whose foreign keys the engine does not enforce;
  the handler of the \<^verbatim>\<open>try\<close> (roll back, go on with the tables as they were) is the
  \<open>Inl\<close> branch below.
\<close>

definition clear_tables :: "database \<Rightarrow> py_error + database" where
  "clear_tables db = Inr (db\<lparr>people := [], clubs := [], friendships := [], club_members := []\<rparr>)"

text \<open>\<^verbatim>\<open>row[c]\<close>: the cell, or \<^verbatim>\<open>KeyError\<close> when the frame has no column \<open>c\<close>.\<close>

definition getcol :: "dataframe \<Rightarrow> string \<Rightarrow> (row \<Rightarrow> 'a) \<Rightarrow> row \<Rightarrow> py_error + 'a" where
  "getcol df c f r = (if c \<in> set (columns df) then Inr (f r) else Inl (KeyError c))"

text \<open>
  \<^verbatim>\<open>Person(id=row["ID"], name=f"{row['Name']} {row['Surname']}", age=row["Age"],
  gender=row["Gender"], location=row["Location"])\<close>: the arguments are evaluated left to
  right, so the first column missing in that order is the one the \<^verbatim>\<open>KeyError\<close> names.
\<close>

definition person_columns :: "string list" where
  "person_columns = [''ID'', ''Name'', ''Surname'', ''Age'', ''Gender'', ''Location'']"

definition person_of_row :: "row \<Rightarrow> person" where
  "person_of_row r =
     \<lparr>pid = ID r, name = Name r @ '' '' @ Surname r, age = Age r,
      gender = Gender r, location = Location r\<rparr>"

definition make_person :: "dataframe \<Rightarrow> row \<Rightarrow> py_error + person" where
  "make_person df r =
     (case find (\<lambda>c. c \<notin> set (columns df)) person_columns of
        Some c \<Rightarrow> Inl (KeyError c)
      | None \<Rightarrow> Inr (person_of_row r))"

text \<open>
  \<^verbatim>\<open>clubs_dict\<close> maps a description to its Club object; a Python dict keeps insertion
  order, and a Club is added to the session exactly when it enters the dict, so the
  dict's order is the order of \<^verbatim>\<open>session.add\<close>. A pending Club object is its
  \<^verbatim>\<open>members\<close> list. \<open>add_member\<close> is the body of the inner loop: get or create the
  club, then \<^verbatim>\<open>club.members.append(person)\<close>.
\<close>

type_synonym clubs_dict = "(string \<times> person list) list"

definition add_member :: "person \<Rightarrow> clubs_dict \<Rightarrow> string \<Rightarrow> clubs_dict" where
  "add_member p cd d =
     (if d \<notin> set (map fst cd) then cd @ [(d, [p])]
      else map (\<lambda>(k, ms). if k = d then (k, ms @ [p]) else (k, ms)) cd)"

record load_state =
  new_people :: "person list"
  clubs_dict :: clubs_dict
  people_dict :: "int \<rightharpoonup> person"

definition init_state :: load_state where
  "init_state = \<lparr>new_people = [], clubs_dict = [], people_dict = Map.empty\<rparr>"

text \<open>The first loop over \<^verbatim>\<open>df.iterrows()\<close>; an exception leaves the loop.\<close>

fun first_pass :: "dataframe \<Rightarrow> row list \<Rightarrow> load_state \<Rightarrow> py_error + load_state" where
  "first_pass df [] s = Inr s"
| "first_pass df (r # rs) s =
     (case make_person df r of
        Inl e \<Rightarrow> Inl e
      | Inr p \<Rightarrow>
          (case getcol df ''Clubs'' Clubs r of
             Inl e \<Rightarrow> Inl e
           | Inr cs \<Rightarrow>
               first_pass df rs
                 \<lparr>new_people = new_people s @ [p],
                  clubs_dict = foldl (add_member p) (clubs_dict s) cs,
                  people_dict = (people_dict s)(pid p \<mapsto> p)\<rparr>))"

text \<open>
  The first \<^verbatim>\<open>session.commit()\<close> flushes the pending objects: the people in the order
  they were added, the clubs in the order they were added (the engine gives each the
  next id: one more than the largest id in the table, 1 in an empty table), then one
  \<^verbatim>\<open>club_members\<close> row for every entry of every new club's \<^verbatim>\<open>members\<close>. The people
  are inserted row by row: binding an \<^verbatim>\<open>id\<close> or \<^verbatim>\<open>age\<close> outside the 64-bit range
  raises \<^verbatim>\<open>OverflowError\<close>, and an \<^verbatim>\<open>id\<close> the table already has raises
  \<^verbatim>\<open>IntegrityError\<close>. An exception rolls the transaction back.
\<close>

fun insert_people :: "person list \<Rightarrow> person list \<Rightarrow> py_error + person list" where
  "insert_people tbl [] = Inr tbl"
| "insert_people tbl (p # ps) =
     (if \<not> (int64 (pid p) \<and> int64 (age p)) then Inl OverflowError
      else if pid p \<in> set (map pid tbl) then Inl (IntegrityError ''people.id'')
      else insert_people (tbl @ [p]) ps)"

definition next_id :: "club list \<Rightarrow> int" where
  "next_id cs = (if cs = [] then 1 else Max (set (map cid cs)) + 1)"

definition insert_club :: "club list \<Rightarrow> string \<Rightarrow> club list" where
  "insert_club cs d = cs @ [\<lparr>cid = next_id cs, description = d\<rparr>]"

definition member_rows :: "club list \<Rightarrow> clubs_dict \<Rightarrow> (int \<times> int) list" where
  "member_rows cs cd =
     concat (map (\<lambda>(c, (d, ms)). map (\<lambda>p. (pid p, cid c)) ms) (zip cs cd))"

definition commit_first :: "load_state \<Rightarrow> database \<Rightarrow> py_error + database" where
  "commit_first s db =
     (case insert_people (people db) (new_people s) of
        Inl e \<Rightarrow> Inl e
      | Inr ppl \<Rightarrow>
          (let cl = foldl insert_club (clubs db) (map fst (clubs_dict s));
               cm = club_members db @ member_rows (drop (length (clubs db)) cl) (clubs_dict s)
           in if \<not> distinct cm
                then Inl (IntegrityError ''club_members.person_id, club_members.club_id'')
              else Inr (db\<lparr>people := ppl, clubs := cl, club_members := cm\<rparr>)))"

text \<open>
  The second loop: \<^verbatim>\<open>person = people_dict[row["ID"]]\<close>, then for each friend id that is
  a key of \<^verbatim>\<open>people_dict\<close>, \<^verbatim>\<open>person.friends.append(people_dict[friend_id])\<close>. The
  appended pairs are collected in order.
\<close>

fun second_pass ::
  "dataframe \<Rightarrow> row list \<Rightarrow> (int \<rightharpoonup> person) \<Rightarrow> (int \<times> int) list \<Rightarrow> py_error + (int \<times> int) list"
where
  "second_pass df [] pd fr = Inr fr"
| "second_pass df (r # rs) pd fr =
     (case getcol df ''ID'' ID r of
        Inl e \<Rightarrow> Inl e
      | Inr i \<Rightarrow>
          (case pd i of
             None \<Rightarrow> Inl (KeyErrorId i)
           | Some p \<Rightarrow>
               (case getcol df ''Friendships'' Friendships r of
                  Inl e \<Rightarrow> Inl e
                | Inr fs \<Rightarrow>
                    second_pass df rs pd
                      (fr @ map (\<lambda>q. (pid p, pid q)) (List.map_filter pd fs)))))"

text \<open>The final \<^verbatim>\<open>session.commit()\<close> inserts one \<^verbatim>\<open>friendships\<close> row for each pair.\<close>

definition commit_friendships :: "(int \<times> int) list \<Rightarrow> database \<Rightarrow> py_error + database" where
  "commit_friendships fr db =
     (let t = friendships db @ fr
      in if \<not> distinct t
           then Inl (IntegrityError ''friendships.person_id, friendships.friend_id'')
         else Inr (db\<lparr>friendships := t\<rparr>))"

text \<open>
  The load. \<open>read_csv\<close> is the file system seen through \<^verbatim>\<open>pd.read_csv\<close> with the two
  converters: the frame of a path, or the exception. The path read is the literal
  \<^verbatim>\<open>"members.csv"\<close> of line 389; \<open>csv_path\<close> is not used. The result is \<open>Inr\<close> the
  store when the call returns, and \<open>Inl\<close> the exception with the store as the call left
  it when it raises.
\<close>

definition load_data_from_csv ::
  "(string \<Rightarrow> py_error + dataframe) \<Rightarrow> database \<Rightarrow> string \<Rightarrow> (py_error \<times> database) + database"
where
  "load_data_from_csv read_csv db csv_path =
     (let db0 = (case clear_tables db of Inr d \<Rightarrow> d | Inl e \<Rightarrow> db) in
      case read_csv ''members.csv'' of
        Inl e \<Rightarrow> Inl (e, db0)
      | Inr df \<Rightarrow>
          (case first_pass df (rows df) init_state of
             Inl e \<Rightarrow> Inl (e, db0)
           | Inr s \<Rightarrow>
               (case commit_first s db0 of
                  Inl e \<Rightarrow> Inl (e, db0)
                | Inr db1 \<Rightarrow>
                    (case second_pass df (rows df) (people_dict s) [] of
                       Inl e \<Rightarrow> Inl (e, db1)
                     | Inr fr \<Rightarrow>
                         (case commit_friendships fr db1 of
                            Inl e \<Rightarrow> Inl (e, db1)
                          | Inr db2 \<Rightarrow> Inr db2)))))"

section \<open>The queries\<close>

text \<open>
  \<^verbatim>\<open>club.members\<close> and \<^verbatim>\<open>person.friends\<close> are loaded from the association table joined
  with \<^verbatim>\<open>people\<close>: the membership rows of the club in the order of insertion, the
  friendship rows of the person by friend id. \<^verbatim>\<open>.first()\<close> is the first row of the scan
  that matches, or \<^verbatim>\<open>None\<close>; on \<^verbatim>\<open>people\<close> the scan goes by id. (The clubs are inserted
  with increasing ids, so their order of insertion is their order by id.)
\<close>

definition members :: "database \<Rightarrow> club \<Rightarrow> person list" where
  "members db c =
     concat (map (\<lambda>(p, k). if k = cid c then filter (\<lambda>q. pid q = p) (people db) else [])
       (club_members db))"

definition friends :: "database \<Rightarrow> person \<Rightarrow> person list" where
  "friends db p =
     concat (map (\<lambda>(a, b). filter (\<lambda>q. pid q = b) (people db))
       (sort_key snd (filter (\<lambda>(a, b). a = pid p) (friendships db))))"

definition get_club_members :: "database \<Rightarrow> string \<Rightarrow> person list" where
  "get_club_members db club_description =
     (case find (\<lambda>c. description c = club_description) (clubs db) of
        Some club \<Rightarrow> members db club
      | None \<Rightarrow> [])"

definition get_friends_of_person :: "database \<Rightarrow> string \<Rightarrow> person list" where
  "get_friends_of_person db person_name =
     (case find (\<lambda>p. name p = person_name) (people_by_id db) of
        Some p \<Rightarrow> friends db p
      | None \<Rightarrow> [])"

text \<open>
  \<^verbatim>\<open>Person.friends.any(Person.id == target_person.id)\<close>: the people \<open>p\<close> for which some
  \<^verbatim>\<open>friendships\<close> row \<open>(pid p, b)\<close> joins a person whose id is \<open>b\<close> and is the target's;
  \<^verbatim>\<open>.all()\<close> returns them as the scan of \<^verbatim>\<open>people\<close> meets them, by id.
\<close>

definition get_persons_who_consider_them_friend :: "database \<Rightarrow> string \<Rightarrow> person list" where
  "get_persons_who_consider_them_friend db person_name =
     (case find (\<lambda>p. name p = person_name) (people_by_id db) of
        None \<Rightarrow> []
      | Some target_person \<Rightarrow>
          filter
            (\<lambda>p. list_ex (\<lambda>(a, b). a = pid p \<and>
                     list_ex (\<lambda>q. pid q = b \<and> pid q = pid target_person) (people db))
                   (friendships db))
            (people_by_id db))"

section \<open>What a load leaves in the store\<close>

text \<open>
  The definitions of this section describe the outcome of a load directly from the rows of
  the frame; the lemmas below prove that \<open>load_data_from_csv\<close> computes them.
\<close>

text \<open>The elements of a list in the order of their first occurrence.\<close>

fun first_seen :: "'a list \<Rightarrow> 'a list" where
  "first_seen [] = []"
| "first_seen (x # xs) = x # filter (\<lambda>y. y \<noteq> x) (first_seen xs)"

text \<open>The clubs of a list of descriptions inserted into an empty table: ids 1, 2, ...\<close>

definition numbered :: "string list \<Rightarrow> club list" where
  "numbered ds = map (\<lambda>(i, d). \<lparr>cid = int i + 1, description = d\<rparr>) (enumerate 0 ds)"

text \<open>The columns the first loop reads, and all the columns the load reads.\<close>

definition phase1_columns :: "string list" where
  "phase1_columns = person_columns @ [''Clubs'']"

definition all_columns :: "string list" where
  "all_columns = phase1_columns @ [''Friendships'']"

text \<open>The state of the first loop after the rows \<open>rs\<close>, from the state \<open>s\<close>.\<close>

definition pass1_state :: "load_state \<Rightarrow> row list \<Rightarrow> load_state" where
  "pass1_state s rs =
     \<lparr>new_people = new_people s @ map person_of_row rs,
      clubs_dict = foldl (\<lambda>cd r. foldl (add_member (person_of_row r)) cd (Clubs r)) (clubs_dict s) rs,
      people_dict = foldl (\<lambda>m r. m(ID r \<mapsto> person_of_row r)) (people_dict s) rs\<rparr>"

text \<open>
  The \<^verbatim>\<open>members\<close> list of the club \<open>k\<close> after the first loop: the person of a row once
  for each time the row lists \<open>k\<close>.
\<close>

definition dict_members :: "clubs_dict \<Rightarrow> string \<Rightarrow> person list" where
  "dict_members cd k = (case map_of cd k of Some ms \<Rightarrow> ms | None \<Rightarrow> [])"

definition members_listed :: "row list \<Rightarrow> string \<Rightarrow> person list" where
  "members_listed rs k =
     concat (map (\<lambda>r. map (\<lambda>_. person_of_row r) (filter (\<lambda>d. d = k) (Clubs r))) rs)"

definition final_dict :: "row list \<Rightarrow> clubs_dict" where
  "final_dict rs = map (\<lambda>k. (k, members_listed rs k)) (first_seen (concat (map Clubs rs)))"

definition final_people_dict :: "row list \<Rightarrow> (int \<rightharpoonup> person)" where
  "final_people_dict rs = foldl (\<lambda>m r. m(ID r \<mapsto> person_of_row r)) Map.empty rs"

text \<open>The exception of the first commit when it cannot insert the people.\<close>

definition people_error :: "row list \<Rightarrow> py_error" where
  "people_error rs =
     (case insert_people [] (map person_of_row rs) of Inl e \<Rightarrow> e | Inr t \<Rightarrow> OverflowError)"

text \<open>
  The store after the first commit, and after the second: the people in row order, the
  clubs numbered in first-seen order, one membership row per club and listing row, one
  friendship row for each listed id that is the id of some row.
\<close>

definition pass1_db :: "row list \<Rightarrow> database" where
  "pass1_db rs =
     (let cs = numbered (first_seen (concat (map Clubs rs))) in
      \<lparr>people = map person_of_row rs,
       clubs = cs,
       friendships = [],
       club_members =
         concat (map (\<lambda>c. map (\<lambda>r. (ID r, cid c)) (filter (\<lambda>r. description c \<in> set (Clubs r)) rs)) cs)\<rparr>)"

definition friend_edges :: "row list \<Rightarrow> row list \<Rightarrow> (int \<times> int) list" where
  "friend_edges all rs =
     concat (map (\<lambda>r. map (\<lambda>f. (ID r, f)) (filter (\<lambda>f. f \<in> set (map ID all)) (Friendships r))) rs)"

definition loaded :: "row list \<Rightarrow> database" where
  "loaded rs = (pass1_db rs)\<lparr>friendships := friend_edges rs rs\<rparr>"

text \<open>
  The frames a load accepts: all columns present (or no row at all), every id and age
  in the 64-bit range, no id on two rows, no club twice in one row, no loaded friend id
  twice in one row.
\<close>

definition loadable :: "dataframe \<Rightarrow> bool" where
  "loadable df \<longleftrightarrow>
     (rows df = [] \<or> set all_columns \<subseteq> set (columns df)) \<and>
     (\<forall>r\<in>set (rows df). int64 (ID r) \<and> int64 (Age r)) \<and>
     distinct (map ID (rows df)) \<and>
     (\<forall>r\<in>set (rows df). distinct (Clubs r)) \<and>
     (\<forall>r\<in>set (rows df). distinct (filter (\<lambda>f. f \<in> set (map ID (rows df))) (Friendships r)))"

text \<open>The store a call leaves, whether it returned or raised.\<close>

definition store_after :: "(py_error \<times> database) + database \<Rightarrow> database" where
  "store_after r = (case r of Inl (e, db) \<Rightarrow> db | Inr db \<Rightarrow> db)"

text \<open>The display name a person is stored under.\<close>

definition display_name :: "row \<Rightarrow> string" where
  "display_name r = Name r @ '' '' @ Surname r"


subsection \<open>A small frame\<close>

definition ex_columns :: "string list" where
  "ex_columns = [''ID'', ''Name'', ''Surname'', ''Age'', ''Gender'', ''Location'', ''Clubs'', ''Friendships'']"

definition ex_rows :: "row list" where
  "ex_rows =
     [\<lparr>ID = 0, Name = ''John'', Surname = ''Rocha'', Age = 57, Gender = ''Male'',
       Location = ''MN'', Clubs = [''Fitness Club''], Friendships = [1, 7]\<rparr>,
      \<lparr>ID = 1, Name = ''Amanda'', Surname = ''Norris'', Age = 27, Gender = ''Female'',
       Location = ''CA'', Clubs = [''Art Club'', ''Fitness Club''], Friendships = []\<rparr>,
      \<lparr>ID = 2, Name = ''Mark'', Surname = ''Allen'', Age = 36, Gender = ''Male'',
       Location = ''IN'', Clubs = [], Friendships = [0]\<rparr>]"

definition ex_df :: dataframe where
  "ex_df = \<lparr>columns = ex_columns, rows = ex_rows\<rparr>"

definition john :: person where
  "john = \<lparr>pid = 0, name = ''John Rocha'', age = 57, gender = ''Male'', location = ''MN''\<rparr>"

definition amanda :: person where
  "amanda = \<lparr>pid = 1, name = ''Amanda Norris'', age = 27, gender = ''Female'', location = ''CA''\<rparr>"

definition mark :: person where
  "mark = \<lparr>pid = 2, name = ''Mark Allen'', age = 36, gender = ''Male'', location = ''IN''\<rparr>"

definition ex_db :: database where
  "ex_db =
     \<lparr>people = [john, amanda, mark],
      clubs = [\<lparr>cid = 1, description = ''Fitness Club''\<rparr>, \<lparr>cid = 2, description = ''Art Club''\<rparr>],
      friendships = [(0, 1), (2, 0)],
      club_members = [(0, 1), (1, 1), (1, 2)]\<rparr>"

text \<open>A second file, an earlier content of the store, and frames that lack a column.\<close>

definition other_df :: dataframe where
  "other_df = \<lparr>columns = ex_columns, rows = []\<rparr>"

definition old_db :: database where
  "old_db =
     \<lparr>people = [\<lparr>pid = 99, name = ''Old Timer'', age = 80, gender = ''Male'', location = ''FL''\<rparr>],
      clubs = [\<lparr>cid = 1, description = ''Bridge Club''\<rparr>],
      friendships = [(99, 99)],
      club_members = [(99, 1)]\<rparr>"

definition no_friendships_df :: dataframe where
  "no_friendships_df =
     \<lparr>columns = [''ID'', ''Name'', ''Surname'', ''Age'', ''Gender'', ''Location'', ''Clubs''],
      rows = ex_rows\<rparr>"

definition no_clubs_df :: dataframe where
  "no_clubs_df =
     \<lparr>columns = [''ID'', ''Name'', ''Surname'', ''Age'', ''Gender'', ''Location'', ''Friendships''],
      rows = ex_rows\<rparr>"

definition half_db :: database where
  "half_db =
     \<lparr>people = [john, amanda, mark],
      clubs = [\<lparr>cid = 1, description = ''Fitness Club''\<rparr>, \<lparr>cid = 2, description = ''Art Club''\<rparr>],
      friendships = [],
      club_members = [(0, 1), (1, 1), (1, 2)]\<rparr>"

text \<open>Two rows with one id.\<close>

definition twins_df :: dataframe where
  "twins_df =
     \<lparr>columns = ex_columns,
      rows =
        [\<lparr>ID = 5, Name = ''Eve'', Surname = ''Fox'', Age = 44, Gender = ''Female'',
          Location = ''OH'', Clubs = [''Chess Club''], Friendships = []\<rparr>,
         \<lparr>ID = 5, Name = ''Ned'', Surname = ''Ray'', Age = 23, Gender = ''Male'',
          Location = ''KS'', Clubs = [], Friendships = []\<rparr>]\<rparr>"







text \<open>A frame whose ids do not ascend, with one display name on two rows.\<close>

definition unordered_rows :: "row list" where
  "unordered_rows =
     [\<lparr>ID = 5, Name = ''Sam'', Surname = ''Lee'', Age = 30, Gender = ''Male'',
       Location = ''TX'', Clubs = [], Friendships = [1]\<rparr>,
      \<lparr>ID = 1, Name = ''Sam'', Surname = ''Lee'', Age = 41, Gender = ''Female'',
       Location = ''NY'', Clubs = [], Friendships = [5, 2]\<rparr>,
      \<lparr>ID = 2, Name = ''Ann'', Surname = ''Poe'', Age = 25, Gender = ''Female'',
       Location = ''WA'', Clubs = [], Friendships = [1]\<rparr>]"

definition unordered_df :: dataframe where
  "unordered_df = \<lparr>columns = ex_columns, rows = unordered_rows\<rparr>"

definition unordered_db :: database where
  "unordered_db =
     \<lparr>people = map person_of_row unordered_rows, clubs = [],
      friendships = [(5, 1), (1, 5), (1, 2), (2, 1)], club_members = []\<rparr>"

section \<open>Lemmas\<close>

subsection \<open>The first loop\<close>

lemma make_person_ok:
  "set person_columns \<subseteq> set (columns df) \<Longrightarrow> make_person df r = Inr (person_of_row r)"
  by (auto simp: make_person_def find_None_iff split: option.splits)

lemma make_person_missing:
  "\<not> set person_columns \<subseteq> set (columns df) \<Longrightarrow>
   \<exists>c. c \<in> set person_columns \<and> c \<notin> set (columns df) \<and> make_person df r = Inl (KeyError c)"
proof -
  assume "\<not> set person_columns \<subseteq> set (columns df)"
  then obtain c where "find (\<lambda>c. c \<notin> set (columns df)) person_columns = Some c"
    by (cases "find (\<lambda>c. c \<notin> set (columns df)) person_columns") (auto simp: find_None_iff)
  moreover from this have "c \<in> set person_columns \<and> c \<notin> set (columns df)"
    by (auto simp: find_Some_iff)
  ultimately show ?thesis by (auto simp: make_person_def)
qed

lemma first_pass_ok:
  "set phase1_columns \<subseteq> set (columns df) \<Longrightarrow> first_pass df rs s = Inr (pass1_state s rs)"
proof (induction rs arbitrary: s)
  case Nil
  show ?case by (simp add: pass1_state_def)
next
  case (Cons r rs)
  from Cons.prems have c: "set person_columns \<subseteq> set (columns df)" "''Clubs'' \<in> set (columns df)"
    by (auto simp: phase1_columns_def)
  show ?case
    by (simp add: make_person_ok [OF c(1)] getcol_def c(2) Cons.IH [OF Cons.prems] pass1_state_def
        person_of_row_def)
qed

lemma first_pass_missing:
  "\<not> set phase1_columns \<subseteq> set (columns df) \<Longrightarrow>
   \<exists>c. c \<in> set phase1_columns \<and> c \<notin> set (columns df) \<and> first_pass df (r # rs) s = Inl (KeyError c)"
proof (cases "set person_columns \<subseteq> set (columns df)")
  case True
  assume "\<not> set phase1_columns \<subseteq> set (columns df)"
  with True have "''Clubs'' \<notin> set (columns df)" by (auto simp: phase1_columns_def)
  then show ?thesis
    by (auto simp: make_person_ok [OF True] getcol_def phase1_columns_def)
next
  case False
  from make_person_missing [OF False, of r] show ?thesis
    by (auto simp: phase1_columns_def)
qed

lemma find_append:
  "find P (xs @ ys) = (case find P xs of None \<Rightarrow> find P ys | Some x \<Rightarrow> Some x)"
  by (induction xs) auto

lemma first_pass_first_missing:
  assumes "find (\<lambda>c. c \<notin> set (columns df)) phase1_columns = Some c"
  shows "first_pass df (r # rs) s = Inl (KeyError c)"
proof (cases "find (\<lambda>c. c \<notin> set (columns df)) person_columns")
  case None
  with assms have "''Clubs'' \<notin> set (columns df)" "c = ''Clubs''"
    by (auto simp: phase1_columns_def find_append split: if_splits)
  with None show ?thesis by (simp add: make_person_def getcol_def)
next
  case (Some c')
  with assms have "c' = c" by (simp add: phase1_columns_def find_append)
  with Some show ?thesis by (simp add: make_person_def)
qed

subsection \<open>The dict of clubs\<close>

text \<open>
  Its keys are the descriptions in first-seen order; the members of a key are the persons
  of the rows that list it, once for each listing.
\<close>

lemma first_seen_foldl:
  "foldl (\<lambda>ks d. if d \<notin> set ks then ks @ [d] else ks) ks xs
     = ks @ filter (\<lambda>y. y \<notin> set ks) (first_seen xs)"
proof (induction xs arbitrary: ks)
  case Nil
  show ?case by simp
next
  case (Cons x xs)
  show ?case
  proof (cases "x \<in> set ks")
    case True
    then have "filter (\<lambda>y. y \<notin> set ks) (filter (\<lambda>y. y \<noteq> x) (first_seen xs))
        = filter (\<lambda>y. y \<notin> set ks) (first_seen xs)"
      by (auto intro: filter_cong)
    with True show ?thesis by (simp add: Cons.IH)
  next
    case False
    have "filter (\<lambda>y. y \<notin> set (ks @ [x])) (first_seen xs)
        = filter (\<lambda>y. y \<notin> set ks) (filter (\<lambda>y. y \<noteq> x) (first_seen xs))"
      by (auto intro: filter_cong)
    with False show ?thesis by (simp add: Cons.IH)
  qed
qed

lemma set_first_seen: "set (first_seen xs) = set xs"
  by (induction xs) auto

lemma distinct_first_seen: "distinct (first_seen xs)"
  by (induction xs) (auto simp: set_first_seen)

lemma keys_add_member:
  "map fst (add_member p cd d) = (if d \<notin> set (map fst cd) then map fst cd @ [d] else map fst cd)"
  by (auto simp: add_member_def split: prod.splits)

lemma map_of_append_member:
  "map_of (map (\<lambda>(k, ms). if k = d then (k, ms @ [p]) else (k, ms)) cd) k
     = (if k = d then map_option (\<lambda>ms. ms @ [p]) (map_of cd k) else map_of cd k)"
  by (induction cd) auto

lemma dict_members_add_member:
  "dict_members (add_member p cd d) k = dict_members cd k @ (if k = d then [p] else [])"
proof (cases "d \<in> set (map fst cd)")
  case True
  then obtain ms where "map_of cd d = Some ms"
    by (cases "map_of cd d") (auto simp: map_of_eq_None_iff)
  with True show ?thesis
    by (simp add: add_member_def dict_members_def map_of_append_member)
next
  case False
  then have "map_of cd d = None" by (simp add: map_of_eq_None_iff)
  with False show ?thesis
    by (auto simp: add_member_def dict_members_def map_add_def split: option.splits)
qed

lemma keys_foldl_add_member:
  "map fst (foldl (add_member p) cd ds)
     = foldl (\<lambda>ks d. if d \<notin> set ks then ks @ [d] else ks) (map fst cd) ds"
  by (induction ds arbitrary: cd) (simp_all add: keys_add_member)

lemma keys_pass1:
  "map fst (foldl (\<lambda>cd r. foldl (add_member (person_of_row r)) cd (Clubs r)) cd rs)
     = foldl (\<lambda>ks d. if d \<notin> set ks then ks @ [d] else ks) (map fst cd) (concat (map Clubs rs))"
  by (induction rs arbitrary: cd) (simp_all add: keys_foldl_add_member)

lemma dict_members_foldl_add_member:
  "dict_members (foldl (add_member p) cd ds) k
     = dict_members cd k @ map (\<lambda>_. p) (filter (\<lambda>d. d = k) ds)"
  by (induction ds arbitrary: cd) (simp_all add: dict_members_add_member)

lemma dict_members_pass1:
  "dict_members (foldl (\<lambda>cd r. foldl (add_member (person_of_row r)) cd (Clubs r)) cd rs) k
     = dict_members cd k @ members_listed rs k"
  by (induction rs arbitrary: cd) (simp_all add: dict_members_foldl_add_member members_listed_def)

lemma dict_as_keys:
  "distinct (map fst cd) \<Longrightarrow> cd = map (\<lambda>k. (k, dict_members cd k)) (map fst cd)"
proof (induction cd)
  case Nil
  show ?case by simp
next
  case (Cons a cd)
  obtain k ms where a: "a = (k, ms)" by (cases a)
  from Cons.prems a have nk: "k \<notin> fst ` set cd" and d: "distinct (map fst cd)" by auto
  have "map (\<lambda>k'. (k', dict_members (a # cd) k')) (map fst cd)
      = map (\<lambda>k'. (k', dict_members cd k')) (map fst cd)"
    using nk a by (auto simp: dict_members_def)
  with Cons.IH [OF d] a show ?case by (simp add: dict_members_def)
qed

lemma clubs_dict_pass1: "clubs_dict (pass1_state init_state rs) = final_dict rs"
proof -
  let ?cd = "clubs_dict (pass1_state init_state rs)"
  have k: "map fst ?cd = first_seen (concat (map Clubs rs))"
    by (simp add: pass1_state_def init_state_def keys_pass1 first_seen_foldl)
  then have "distinct (map fst ?cd)" by (simp add: distinct_first_seen)
  from dict_as_keys [OF this] have "?cd = map (\<lambda>k. (k, dict_members ?cd k)) (map fst ?cd)" .
  also have "\<dots> = map (\<lambda>k. (k, members_listed rs k)) (map fst ?cd)"
    by (simp add: pass1_state_def init_state_def dict_members_pass1) (simp add: dict_members_def)
  finally show ?thesis by (simp add: k final_dict_def)
qed

subsection \<open>The first commit\<close>

text \<open>
  Inserted into the empty table, the clubs get the ids 1, 2, ...; the membership rows are
  distinct exactly when no row lists a club twice (the ids of the rows being distinct).
\<close>

lemma length_numbered: "length (numbered ds) = length ds"
  by (simp add: numbered_def)

lemma descriptions_numbered: "map description (numbered ds) = ds"
  by (simp add: numbered_def map_idI case_prod_unfold comp_def)

lemma cids_numbered: "map cid (numbered ds) = map (\<lambda>i. int i + 1) [0..<length ds]"
proof -
  have "map cid (numbered ds) = map ((\<lambda>i. int i + 1) \<circ> fst) (enumerate 0 ds)"
    by (simp add: numbered_def case_prod_unfold comp_def)
  also have "\<dots> = map (\<lambda>i. int i + 1) (map fst (enumerate 0 ds))"
    by (simp only: map_map)
  also have "\<dots> = map (\<lambda>i. int i + 1) [0..<length ds]"
    by (simp only: map_fst_enumerate) simp
  finally show ?thesis .
qed

lemma numbered_snoc:
  "numbered (ds @ [d]) = numbered ds @ [\<lparr>cid = int (length ds) + 1, description = d\<rparr>]"
  by (simp add: numbered_def enumerate_append_eq)

lemma next_id_numbered: "next_id (numbered ds) = int (length ds) + 1"
proof (cases "ds = []")
  case True
  then show ?thesis by (simp add: next_id_def numbered_def)
next
  case False
  then have n: "0 < length ds" by simp
  have "Max (set (map cid (numbered ds))) = int (length ds)"
  proof (rule Max_eqI)
    show "finite (set (map cid (numbered ds)))" by simp
    show "\<And>y. y \<in> set (map cid (numbered ds)) \<Longrightarrow> y \<le> int (length ds)"
      by (auto simp: cids_numbered)
    from n obtain m where m: "length ds = Suc m" by (cases "length ds") auto
    then have "int m + 1 \<in> (\<lambda>i. int i + 1) ` {0..<length ds}" by (intro imageI) simp
    with m show "int (length ds) \<in> set (map cid (numbered ds))"
      by (simp add: cids_numbered add.commute)
  qed
  moreover from False have "numbered ds \<noteq> []" using length_numbered [of ds] by auto
  ultimately show ?thesis by (simp add: next_id_def)
qed

lemma foldl_insert_club: "foldl insert_club [] ds = numbered ds"
proof (induction ds rule: rev_induct)
  case Nil
  show ?case by (simp add: numbered_def)
next
  case (snoc d ds)
  then show ?case by (simp add: insert_club_def next_id_numbered numbered_snoc)
qed

lemma distinct_cids_numbered: "distinct (map cid (numbered ds))"
  by (simp add: cids_numbered distinct_map inj_on_def)

lemma member_rows_final:
  "member_rows (numbered ks) (map (\<lambda>k. (k, M k)) ks)
     = concat (map (\<lambda>c. map (\<lambda>p. (pid p, cid c)) (M (description c))) (numbered ks))"
proof -
  have "map (\<lambda>k. (k, M k)) ks = map (\<lambda>c. (description c, M (description c))) (numbered ks)"
  proof -
    have "map (\<lambda>c. (description c, M (description c))) (numbered ks)
        = map (\<lambda>k. (k, M k)) (map description (numbered ks))"
      by (simp add: comp_def)
    then show ?thesis by (simp only: descriptions_numbered)
  qed
  then show ?thesis
    by (simp add: member_rows_def zip_map2 zip_same_conv_map comp_def case_prod_unfold)
qed

lemma filter_eq_distinct:
  "distinct xs \<Longrightarrow> filter (\<lambda>d. d = k) xs = (if k \<in> set xs then [k] else [])"
  by (induction xs) auto

lemma members_listed_distinct:
  "\<forall>r\<in>set rs. distinct (Clubs r) \<Longrightarrow>
   members_listed rs k = map person_of_row (filter (\<lambda>r. k \<in> set (Clubs r)) rs)"
  by (induction rs) (simp_all add: members_listed_def filter_eq_distinct)

lemma count_absent: "k \<notin> set xs \<Longrightarrow> filter (\<lambda>d. d = k) xs = []"
  by (induction xs) auto

lemma distinct_iff_count:
  "distinct xs \<longleftrightarrow> (\<forall>k\<in>set xs. length (filter (\<lambda>d. d = k) xs) \<le> 1)"
proof (induction xs)
  case Nil
  show ?case by simp
next
  case (Cons x xs)
  have "(\<forall>k\<in>set xs. length (filter (\<lambda>d. d = k) (x # xs)) \<le> 1)
      \<longleftrightarrow> x \<notin> set xs \<and> (\<forall>k\<in>set xs. length (filter (\<lambda>d. d = k) xs) \<le> 1)"
    by (auto simp: filter_empty_conv)
  moreover have "length (filter (\<lambda>d. d = x) (x # xs)) \<le> 1 \<longleftrightarrow> x \<notin> set xs"
    by (auto simp: filter_empty_conv)
  ultimately show ?case using Cons.IH by auto
qed

lemma distinct_replicate_iff: "distinct (replicate n x) \<longleftrightarrow> n \<le> 1"
  by (cases n) (auto simp: set_replicate_conv_if)

lemma pids_members_listed:
  "map pid (members_listed rs k)
     = concat (map (\<lambda>r. map (\<lambda>_. ID r) (filter (\<lambda>d. d = k) (Clubs r))) rs)"
  by (simp add: members_listed_def map_concat comp_def person_of_row_def)

lemma distinct_pids_members_listed:
  "distinct (map ID rs) \<Longrightarrow>
   distinct (map pid (members_listed rs k))
     \<longleftrightarrow> (\<forall>r\<in>set rs. length (filter (\<lambda>d. d = k) (Clubs r)) \<le> 1)"
proof (induction rs)
  case Nil
  show ?case by (simp add: pids_members_listed)
next
  case (Cons r rs)
  let ?g = "\<lambda>r. map (\<lambda>_. ID r) (filter (\<lambda>d. d = k) (Clubs r))"
  have rep: "?g r = replicate (length (filter (\<lambda>d. d = k) (Clubs r))) (ID r)"
    by (simp add: map_replicate_const)
  have sub: "set (concat (map ?g rs)) \<subseteq> ID ` set rs" by auto
  with Cons.prems have disj: "set (?g r) \<inter> set (concat (map ?g rs)) = {}" by auto
  have "distinct (?g r) \<longleftrightarrow> length (filter (\<lambda>d. d = k) (Clubs r)) \<le> 1"
    unfolding rep by (simp add: distinct_replicate_iff)
  with Cons disj show ?case
    by (simp add: pids_members_listed del: set_concat)
qed

lemma distinct_concat_keyed:
  assumes "distinct (map key xs)"
    and "\<And>x y x' y'. h x y = h x' y' \<longleftrightarrow> key x = key x' \<and> y = y'"
  shows "distinct (concat (map (\<lambda>x. map (h x) (g x)) xs)) \<longleftrightarrow> (\<forall>x\<in>set xs. distinct (g x))"
  using assms(1)
proof (induction xs)
  case Nil
  show ?case by simp
next
  case (Cons x xs)
  have "inj_on (h x) (set (g x))" by (auto simp: inj_on_def assms(2))
  then have a: "distinct (map (h x) (g x)) \<longleftrightarrow> distinct (g x)" by (simp add: distinct_map)
  from Cons.prems have "key x \<notin> key ` set xs" by simp
  then have "\<forall>x'\<in>set xs. key x' \<noteq> key x" by (metis imageI)
  then have "set (map (h x) (g x)) \<inter> set (concat (map (\<lambda>x. map (h x) (g x)) xs)) = {}"
    by (auto simp: assms(2))
  with a Cons show ?case by (simp del: set_concat set_map)
qed

lemma pid_person_of_row: "pid (person_of_row r) = ID r"
  by (simp add: person_of_row_def)

lemma age_person_of_row: "age (person_of_row r) = Age r"
  by (simp add: person_of_row_def)

lemma insert_people_Inr_iff:
  "insert_people tbl ps = Inr t \<longleftrightarrow>
     (\<forall>p\<in>set ps. int64 (pid p) \<and> int64 (age p)) \<and> distinct (map pid ps) \<and>
     set (map pid tbl) \<inter> set (map pid ps) = {} \<and> t = tbl @ ps"
proof (induction ps arbitrary: tbl)
  case Nil
  show ?case by auto
next
  case (Cons p ps)
  show ?case
  proof (cases "int64 (pid p) \<and> int64 (age p) \<and> pid p \<notin> set (map pid tbl)")
    case True
    then have "insert_people tbl (p # ps) = Inr t \<longleftrightarrow> insert_people (tbl @ [p]) ps = Inr t"
      by simp
    also have "\<dots> \<longleftrightarrow> (\<forall>p\<in>set ps. int64 (pid p) \<and> int64 (age p)) \<and> distinct (map pid ps) \<and>
        set (map pid (tbl @ [p])) \<inter> set (map pid ps) = {} \<and> t = (tbl @ [p]) @ ps"
      by (rule Cons.IH)
    also have "\<dots> \<longleftrightarrow> (\<forall>q\<in>set (p # ps). int64 (pid q) \<and> int64 (age q)) \<and>
        distinct (map pid (p # ps)) \<and> set (map pid tbl) \<inter> set (map pid (p # ps)) = {} \<and>
        t = tbl @ p # ps"
      using True by auto
    finally show ?thesis .
  next
    case False
    then show ?thesis by auto
  qed
qed

lemma insert_people_rows:
  "insert_people [] (map person_of_row rs) =
     (if (\<forall>r\<in>set rs. int64 (ID r) \<and> int64 (Age r)) \<and> distinct (map ID rs)
      then Inr (map person_of_row rs) else Inl (people_error rs))"
proof (cases "insert_people [] (map person_of_row rs)")
  case (Inl e)
  then have "\<not> ((\<forall>r\<in>set rs. int64 (ID r) \<and> int64 (Age r)) \<and> distinct (map ID rs))"
    using insert_people_Inr_iff [of "[]" "map person_of_row rs" "map person_of_row rs"]
    by (auto simp: pid_person_of_row age_person_of_row comp_def)
  with Inl show ?thesis by (simp add: people_error_def)
next
  case (Inr t)
  then show ?thesis
    using insert_people_Inr_iff [of "[]" "map person_of_row rs" t]
    by (auto simp: pid_person_of_row age_person_of_row comp_def)
qed

lemma pids_people: "map (pid \<circ> person_of_row) rs = map ID rs"
  by (simp add: pid_person_of_row)

lemma distinct_member_rows:
  assumes "distinct (map ID rs)"
  shows "distinct (member_rows (numbered (first_seen (concat (map Clubs rs)))) (final_dict rs))
     \<longleftrightarrow> (\<forall>r\<in>set rs. distinct (Clubs r))"
proof -
  let ?K = "first_seen (concat (map Clubs rs))"
  have "member_rows (numbered ?K) (final_dict rs)
      = concat (map (\<lambda>c. map (\<lambda>i. (i, cid c)) (map pid (members_listed rs (description c))))
          (numbered ?K))"
    by (simp add: final_dict_def member_rows_final comp_def)
  moreover have "distinct (concat (map (\<lambda>c. map (\<lambda>i. (i, cid c)) (map pid (members_listed rs (description c))))
          (numbered ?K)))
     \<longleftrightarrow> (\<forall>c\<in>set (numbered ?K). distinct (map pid (members_listed rs (description c))))"
    by (rule distinct_concat_keyed [where key = cid]) (auto simp: distinct_cids_numbered)
  moreover have "(\<forall>c\<in>set (numbered ?K). distinct (map pid (members_listed rs (description c))))
     \<longleftrightarrow> (\<forall>k\<in>set ?K. distinct (map pid (members_listed rs k)))"
  proof -
    have "set ?K = description ` set (numbered ?K)"
      by (simp only: set_map [symmetric] descriptions_numbered)
    then show ?thesis by simp
  qed
  moreover have "(\<forall>k\<in>set ?K. distinct (map pid (members_listed rs k)))
     \<longleftrightarrow> (\<forall>r\<in>set rs. distinct (Clubs r))"
  proof -
    have "(\<forall>r\<in>set rs. distinct (Clubs r))
        \<longleftrightarrow> (\<forall>r\<in>set rs. \<forall>k\<in>set (Clubs r). length (filter (\<lambda>d. d = k) (Clubs r)) \<le> 1)"
      by (simp add: distinct_iff_count)
    also have "\<dots> \<longleftrightarrow> (\<forall>k\<in>set ?K. \<forall>r\<in>set rs. length (filter (\<lambda>d. d = k) (Clubs r)) \<le> 1)"
    proof -
      have a: "length (filter (\<lambda>d. d = k) (Clubs r)) \<le> 1"
        if "\<forall>k'\<in>set (Clubs r). length (filter (\<lambda>d. d = k') (Clubs r)) \<le> 1" for k r
        using that by (cases "k \<in> set (Clubs r)") (auto simp: count_absent)
      show ?thesis
      proof (intro iffI ballI)
        fix k r
        assume "\<forall>r\<in>set rs. \<forall>k\<in>set (Clubs r). length (filter (\<lambda>d. d = k) (Clubs r)) \<le> 1"
          and "r \<in> set rs"
        then show "length (filter (\<lambda>d. d = k) (Clubs r)) \<le> 1" using a by blast
      next
        fix r k
        assume "\<forall>k\<in>set ?K. \<forall>r\<in>set rs. length (filter (\<lambda>d. d = k) (Clubs r)) \<le> 1"
          and "r \<in> set rs" and "k \<in> set (Clubs r)"
        then show "length (filter (\<lambda>d. d = k) (Clubs r)) \<le> 1"
          by (auto simp: set_first_seen)
      qed
    qed
    finally show ?thesis by (simp add: distinct_pids_members_listed [OF assms])
  qed
  ultimately show ?thesis by simp
qed

lemma commit_first_pass1:
  "commit_first (pass1_state init_state rs) empty_db =
     (if \<not> ((\<forall>r\<in>set rs. int64 (ID r) \<and> int64 (Age r)) \<and> distinct (map ID rs))
        then Inl (people_error rs)
      else if \<not> (\<forall>r\<in>set rs. distinct (Clubs r))
        then Inl (IntegrityError ''club_members.person_id, club_members.club_id'')
      else Inr (pass1_db rs))"
proof -
  let ?K = "first_seen (concat (map Clubs rs))"
  let ?fit = "(\<forall>r\<in>set rs. int64 (ID r) \<and> int64 (Age r)) \<and> distinct (map ID rs)"
  have p: "new_people (pass1_state init_state rs) = map person_of_row rs"
    by (simp add: pass1_state_def init_state_def)
  have k: "map fst (final_dict rs) = ?K" by (simp add: final_dict_def comp_def)
  show ?thesis
  proof (cases ?fit)
    case False
    then have "insert_people [] (map person_of_row rs) = Inl (people_error rs)"
      by (simp add: insert_people_rows)
    with False show ?thesis
      by (simp add: commit_first_def empty_db_def p)
  next
    case fit: True
    then have i: "insert_people [] (map person_of_row rs) = Inr (map person_of_row rs)"
      by (simp add: insert_people_rows)
    have c: "commit_first (pass1_state init_state rs) empty_db =
       (if \<not> distinct (member_rows (numbered ?K) (final_dict rs))
          then Inl (IntegrityError ''club_members.person_id, club_members.club_id'')
        else Inr \<lparr>people = map person_of_row rs, clubs = numbered ?K, friendships = [],
               club_members = member_rows (numbered ?K) (final_dict rs)\<rparr>)"
      by (simp add: commit_first_def empty_db_def clubs_dict_pass1 p k foldl_insert_club
          i Let_def)
    from fit have ids: "distinct (map ID rs)" by simp
    show ?thesis
    proof (cases "\<forall>r\<in>set rs. distinct (Clubs r)")
      case True
      then have d: "distinct (member_rows (numbered ?K) (final_dict rs))"
        by (simp add: distinct_member_rows [OF ids])
      from True have e: "member_rows (numbered ?K) (final_dict rs)
          = concat (map (\<lambda>c. map (\<lambda>r. (ID r, cid c)) (filter (\<lambda>r. description c \<in> set (Clubs r)) rs))
              (numbered ?K))"
        by (simp add: final_dict_def member_rows_final members_listed_distinct comp_def
            person_of_row_def)
      from True fit d show ?thesis
        by (simp add: c e pass1_db_def Let_def)
    next
      case False
      with fit show ?thesis by (auto simp: c distinct_member_rows [OF ids])
    qed
  qed
qed

subsection \<open>The second loop\<close>

lemma people_dict_pass1: "people_dict (pass1_state init_state rs) = final_people_dict rs"
  by (simp add: pass1_state_def init_state_def final_people_dict_def)

lemma people_dict_None:
  "foldl (\<lambda>m r. m(ID r \<mapsto> person_of_row r)) m rs i = None \<longleftrightarrow> m i = None \<and> i \<notin> ID ` set rs"
  by (induction rs arbitrary: m) auto

lemma people_dict_pid:
  "foldl (\<lambda>m r. m(ID r \<mapsto> person_of_row r)) m rs i = Some q \<Longrightarrow>
   (\<And>j p. m j = Some p \<Longrightarrow> pid p = j) \<Longrightarrow> pid q = i"
proof (induction rs arbitrary: m)
  case Nil
  then show ?case by simp
next
  case (Cons r rs)
  show ?case
  proof (rule Cons.IH)
    show "foldl (\<lambda>m r. m(ID r \<mapsto> person_of_row r)) (m(ID r \<mapsto> person_of_row r)) rs i = Some q"
      using Cons.prems(1) by (simp only: foldl_Cons)
    show "\<And>j p. (m(ID r \<mapsto> person_of_row r)) j = Some p \<Longrightarrow> pid p = j"
      using Cons.prems(2) by (auto simp: pid_person_of_row split: if_splits)
  qed
qed

lemma final_people_dict_cases:
  "(i \<notin> set (map ID rs) \<and> final_people_dict rs i = None) \<or>
   (i \<in> set (map ID rs) \<and> (\<exists>q. final_people_dict rs i = Some q \<and> pid q = i))"
proof (cases "final_people_dict rs i")
  case None
  then show ?thesis by (simp add: final_people_dict_def people_dict_None)
next
  case (Some q)
  then have "pid q = i" unfolding final_people_dict_def by (rule people_dict_pid) simp
  moreover from Some have "i \<in> ID ` set rs"
    using people_dict_None [of Map.empty rs i] by (simp add: final_people_dict_def)
  ultimately show ?thesis using Some by simp
qed

lemma friends_found:
  "map (\<lambda>q. (a, pid q)) (List.map_filter (final_people_dict rs) fs)
     = map (\<lambda>f. (a, f)) (filter (\<lambda>f. f \<in> set (map ID rs)) fs)"
proof (induction fs)
  case Nil
  show ?case by simp
next
  case (Cons f fs)
  from final_people_dict_cases [of f rs] Cons show ?case
    by auto
qed

lemma second_pass_ok:
  "''ID'' \<in> set (columns df) \<Longrightarrow> ''Friendships'' \<in> set (columns df) \<Longrightarrow> set rs \<subseteq> set all \<Longrightarrow>
   second_pass df rs (final_people_dict all) fr = Inr (fr @ friend_edges all rs)"
proof (induction rs arbitrary: fr)
  case Nil
  show ?case by (simp add: friend_edges_def)
next
  case (Cons r rs)
  from Cons.prems(3) have "ID r \<in> set (map ID all)" by auto
  with final_people_dict_cases [of "ID r" all]
  obtain q where q: "final_people_dict all (ID r) = Some q" "pid q = ID r" by auto
  from Cons.prems have "set rs \<subseteq> set all" by simp
  from Cons.IH [OF Cons.prems(1,2) this] q Cons.prems(1,2) show ?case
    by (simp add: getcol_def friends_found friend_edges_def)
qed

lemma second_pass_missing:
  "''ID'' \<in> set (columns df) \<Longrightarrow> ''Friendships'' \<notin> set (columns df) \<Longrightarrow> r \<in> set all \<Longrightarrow>
   second_pass df (r # rs) (final_people_dict all) fr = Inl (KeyError ''Friendships'')"
proof -
  assume c: "''ID'' \<in> set (columns df)" "''Friendships'' \<notin> set (columns df)" and "r \<in> set all"
  then have "ID r \<in> set (map ID all)" by auto
  with final_people_dict_cases [of "ID r" all]
  obtain q where "final_people_dict all (ID r) = Some q" by auto
  with c show ?thesis by (simp add: getcol_def)
qed

lemma distinct_friend_edges:
  "distinct (map ID rs) \<Longrightarrow>
   distinct (friend_edges all rs)
     \<longleftrightarrow> (\<forall>r\<in>set rs. distinct (filter (\<lambda>f. f \<in> set (map ID all)) (Friendships r)))"
  unfolding friend_edges_def
  by (rule distinct_concat_keyed [where key = ID]) auto

subsection \<open>The outcome of a load\<close>

text \<open>
  \<open>load_with_columns\<close> gives the outcome on every frame that has the columns of the
  first loop; a load returns exactly on the loadable frames, with the store \<open>loaded\<close>.
\<close>

lemma clear_tables_empty: "clear_tables db = Inr empty_db"
  by (simp add: clear_tables_def empty_db_def)

lemma loaded_Nil: "loaded [] = empty_db"
  by (simp add: loaded_def pass1_db_def friend_edges_def numbered_def empty_db_def)

lemma load_read_error:
  "read_csv ''members.csv'' = Inl e \<Longrightarrow>
   load_data_from_csv read_csv db csv_path = Inl (e, empty_db)"
  by (simp add: load_data_from_csv_def clear_tables_empty)

lemma load_no_rows:
  "read_csv ''members.csv'' = Inr df \<Longrightarrow> rows df = [] \<Longrightarrow>
   load_data_from_csv read_csv db csv_path = Inr empty_db"
  by (simp add: load_data_from_csv_def clear_tables_empty init_state_def commit_first_def
      commit_friendships_def empty_db_def member_rows_def Let_def)

lemma load_missing_phase1:
  assumes "read_csv ''members.csv'' = Inr df" and "rows df \<noteq> []"
    and "\<not> set phase1_columns \<subseteq> set (columns df)"
  shows "\<exists>c. c \<in> set phase1_columns \<and> c \<notin> set (columns df) \<and>
     load_data_from_csv read_csv db csv_path = Inl (KeyError c, empty_db)"
proof -
  from assms(2) obtain r rs where rs: "rows df = r # rs" by (cases "rows df") auto
  from first_pass_missing [OF assms(3), of r rs init_state]
  obtain c where "c \<in> set phase1_columns" "c \<notin> set (columns df)"
    "first_pass df (rows df) init_state = Inl (KeyError c)"
    unfolding rs by blast
  with assms(1) show ?thesis
    by (auto simp: load_data_from_csv_def clear_tables_empty)
qed

lemma load_first_missing:
  assumes "read_csv ''members.csv'' = Inr df" and "rows df \<noteq> []"
    and "find (\<lambda>c. c \<notin> set (columns df)) phase1_columns = Some c"
  shows "load_data_from_csv read_csv db csv_path = Inl (KeyError c, empty_db)"
proof -
  from assms(2) obtain r rs where rs: "rows df = r # rs" by (cases "rows df") auto
  have "first_pass df (rows df) init_state = Inl (KeyError c)"
    unfolding rs by (rule first_pass_first_missing [OF assms(3)])
  with assms(1) show ?thesis
    by (simp add: load_data_from_csv_def clear_tables_empty)
qed

lemma load_with_columns:
  assumes "read_csv ''members.csv'' = Inr df" and "set phase1_columns \<subseteq> set (columns df)"
  shows "load_data_from_csv read_csv db csv_path =
     (if \<not> ((\<forall>r\<in>set (rows df). int64 (ID r) \<and> int64 (Age r)) \<and> distinct (map ID (rows df)))
        then Inl (people_error (rows df), empty_db)
      else if \<not> (\<forall>r\<in>set (rows df). distinct (Clubs r))
        then Inl (IntegrityError ''club_members.person_id, club_members.club_id'', empty_db)
      else if rows df \<noteq> [] \<and> ''Friendships'' \<notin> set (columns df)
        then Inl (KeyError ''Friendships'', pass1_db (rows df))
      else if \<not> (\<forall>r\<in>set (rows df).
                   distinct (filter (\<lambda>f. f \<in> set (map ID (rows df))) (Friendships r)))
        then Inl (IntegrityError ''friendships.person_id, friendships.friend_id'',
               pass1_db (rows df))
      else Inr (loaded (rows df)))"
proof -
  let ?rs = "rows df"
  from assms(2) have id: "''ID'' \<in> set (columns df)"
    by (auto simp: phase1_columns_def person_columns_def)
  have "load_data_from_csv read_csv db csv_path =
     (case commit_first (pass1_state init_state ?rs) empty_db of
        Inl e \<Rightarrow> Inl (e, empty_db)
      | Inr db1 \<Rightarrow>
          (case second_pass df ?rs (people_dict (pass1_state init_state ?rs)) [] of
             Inl e \<Rightarrow> Inl (e, db1)
           | Inr fr \<Rightarrow>
               (case commit_friendships fr db1 of
                  Inl e \<Rightarrow> Inl (e, db1)
                | Inr db2 \<Rightarrow> Inr db2)))"
    by (simp add: load_data_from_csv_def clear_tables_empty assms(1) first_pass_ok [OF assms(2)])
  note l = this [unfolded people_dict_pass1]
  show ?thesis
  proof (cases "((\<forall>r\<in>set ?rs. int64 (ID r) \<and> int64 (Age r)) \<and> distinct (map ID ?rs)) \<and>
      (\<forall>r\<in>set ?rs. distinct (Clubs r))")
    case False
    then show ?thesis by (auto simp: l commit_first_pass1)
  next
    case True
    then have c: "commit_first (pass1_state init_state ?rs) empty_db = Inr (pass1_db ?rs)"
      by (simp add: commit_first_pass1)
    show ?thesis
    proof (cases "''Friendships'' \<in> set (columns df)")
      case False
      show ?thesis
      proof (cases ?rs)
        case Nil
        with load_no_rows [where read_csv = read_csv, OF assms(1) Nil] show ?thesis
          by (simp add: loaded_Nil)
      next
        case (Cons r rs)
        have sp: "second_pass df ?rs (final_people_dict ?rs) [] = Inl (KeyError ''Friendships'')"
          unfolding Cons by (rule second_pass_missing [OF id False]) simp
        from Cons have "?rs \<noteq> []" by simp
        with True False show ?thesis by (simp add: l c sp)
      qed
    next
      case f: True
      have s: "second_pass df ?rs (final_people_dict ?rs) [] = Inr (friend_edges ?rs ?rs)"
        using second_pass_ok [OF id f, of ?rs ?rs "[]"] by simp
      have fr: "friendships (pass1_db ?rs) = []" by (simp add: pass1_db_def Let_def)
      from True have "distinct (friend_edges ?rs ?rs)
         \<longleftrightarrow> (\<forall>r\<in>set ?rs. distinct (filter (\<lambda>f. f \<in> set (map ID ?rs)) (Friendships r)))"
        by (simp add: distinct_friend_edges)
      with True f show ?thesis
        by (simp add: l c s commit_friendships_def fr loaded_def)
    qed
  qed
qed

lemma load_loadable:
  assumes "read_csv ''members.csv'' = Inr df" and "loadable df"
  shows "load_data_from_csv read_csv db csv_path = Inr (loaded (rows df))"
proof (cases "rows df = []")
  case True
  with assms(1) show ?thesis by (simp add: load_no_rows loaded_Nil)
next
  case False
  with assms(2) have "set phase1_columns \<subseteq> set (columns df)" "''Friendships'' \<in> set (columns df)"
    by (auto simp: loadable_def all_columns_def)
  with assms(2) show ?thesis
    by (simp add: load_with_columns [where read_csv = read_csv, OF assms(1)] loadable_def)
qed

lemma load_Inr_D:
  assumes "load_data_from_csv read_csv db csv_path = Inr db'"
  shows "\<exists>df. read_csv ''members.csv'' = Inr df \<and> loadable df \<and> db' = loaded (rows df)"
proof (cases "read_csv ''members.csv''")
  case (Inl e)
  with assms show ?thesis by (simp add: load_read_error)
next
  case (Inr df)
  show ?thesis
  proof (cases "rows df = []")
    case True
    with Inr assms show ?thesis by (simp add: load_no_rows loadable_def loaded_Nil)
  next
    case False
    show ?thesis
    proof (cases "set phase1_columns \<subseteq> set (columns df)")
      case c: False
      from load_missing_phase1 [where read_csv = read_csv and db = db and csv_path = csv_path,
          OF Inr False c] assms
      show ?thesis by auto
    next
      case c: True
      from assms False show ?thesis
        unfolding load_with_columns [where read_csv = read_csv, OF Inr c]
        by (auto simp: Inr loadable_def all_columns_def c split: if_splits)
    qed
  qed
qed

lemma load_Inr_iff:
  "load_data_from_csv read_csv db csv_path = Inr db' \<longleftrightarrow>
     (\<exists>df. read_csv ''members.csv'' = Inr df \<and> loadable df \<and> db' = loaded (rows df))"
  using load_Inr_D load_loadable by blast

subsection \<open>The queries on a loaded store\<close>

lemma people_with_id:
  "filter (\<lambda>q. pid q = i) (map person_of_row rs) = map person_of_row (filter (\<lambda>r. ID r = i) rs)"
  by (simp add: filter_map comp_def pid_person_of_row)

lemma unique_row:
  "distinct (map ID rs) \<Longrightarrow> r \<in> set rs \<Longrightarrow> filter (\<lambda>r'. ID r' = ID r) rs = [r]"
proof (induction rs)
  case Nil
  then show ?case by simp
next
  case (Cons a rs)
  show ?case
  proof (cases "a = r")
    case True
    with Cons.prems have "\<forall>r'\<in>set rs. ID r' \<noteq> ID r" by (metis distinct.simps(2) imageI list.simps(9) set_map)
    then have "filter (\<lambda>r'. ID r' = ID r) rs = []" by (simp add: filter_empty_conv)
    with True show ?thesis by simp
  next
    case False
    with Cons.prems have "r \<in> set rs" "ID a \<noteq> ID r" by auto
    with Cons show ?thesis by simp
  qed
qed

lemma concat_select:
  "distinct (map key xs) \<Longrightarrow> x \<in> set xs \<Longrightarrow>
   concat (map (\<lambda>x'. if key x' = key x then g x' else []) xs) = g x"
proof (induction xs)
  case Nil
  then show ?case by simp
next
  case (Cons a xs)
  show ?case
  proof (cases "a = x")
    case True
    with Cons.prems have "\<forall>x'\<in>set xs. key x' \<noteq> key x" by (metis distinct.simps(2) imageI list.simps(9) set_map)
    then have "map (\<lambda>x'. if key x' = key x then g x' else []) xs = map (\<lambda>_. []) xs"
      by (intro map_cong) auto
    with True show ?thesis by simp
  next
    case False
    with Cons.prems have "x \<in> set xs" "key a \<noteq> key x" by auto
    with Cons show ?thesis by simp
  qed
qed

lemma find_club_None:
  "find (\<lambda>c. description c = d) (numbered ks) = None \<longleftrightarrow> d \<notin> set ks"
proof -
  have "set ks = description ` set (numbered ks)"
    by (simp only: set_map [symmetric] descriptions_numbered)
  then show ?thesis by (auto simp: find_None_iff)
qed

lemma people_loaded: "people (loaded rs) = map person_of_row rs"
  by (simp add: loaded_def pass1_db_def Let_def)

lemma clubs_loaded: "clubs (loaded rs) = numbered (first_seen (concat (map Clubs rs)))"
  by (simp add: loaded_def pass1_db_def Let_def)


lemma club_members_loaded:
  "club_members (loaded rs)
     = concat (map (\<lambda>c. map (\<lambda>r. (ID r, cid c)) (filter (\<lambda>r. description c \<in> set (Clubs r)) rs))
         (clubs (loaded rs)))"
  by (simp add: loaded_def pass1_db_def Let_def)

lemma scan_block:
  "concat (map (\<lambda>(p, k). if k = j then F p else []) (map (\<lambda>r. (ID r, i)) xs))
     = (if i = j then concat (map (\<lambda>r. F (ID r)) xs) else [])"
  by (induction xs) auto

lemma scan_blocks:
  "concat (map (\<lambda>(p, k). if k = j then F p else [])
       (concat (map (\<lambda>c'. map (\<lambda>r. (ID r, cid c')) (L c')) cs)))
     = concat (map (\<lambda>c'. if cid c' = j then concat (map (\<lambda>r. F (ID r)) (L c')) else []) cs)"
proof (induction cs)
  case Nil
  show ?case by simp
next
  case (Cons a cs)
  have "concat (map ((\<lambda>(p, k). if k = j then F p else []) \<circ> (\<lambda>r. (ID r, cid a))) (L a))
      = (if cid a = j then concat (map (\<lambda>r. F (ID r)) (L a)) else [])"
    using scan_block [of j F "cid a" "L a"] by (simp only: map_map)
  with Cons show ?case by simp
qed

lemma join_people:
  "distinct (map ID rs) \<Longrightarrow> set xs \<subseteq> set rs \<Longrightarrow>
   concat (map (\<lambda>r. filter (\<lambda>q. pid q = ID r) (map person_of_row rs)) xs) = map person_of_row xs"
  by (induction xs) (simp_all add: people_with_id unique_row)

lemma members_loaded:
  assumes "distinct (map ID rs)" and "c \<in> set (clubs (loaded rs))"
  shows "members (loaded rs) c
     = map person_of_row (filter (\<lambda>r. description c \<in> set (Clubs r)) rs)"
proof -
  let ?L = "\<lambda>c'. filter (\<lambda>r. description c' \<in> set (Clubs r)) rs"
  let ?F = "\<lambda>p. filter (\<lambda>q. pid q = p) (map person_of_row rs)"
  have "members (loaded rs) c
      = concat (map (\<lambda>(p, k). if k = cid c then ?F p else [])
          (concat (map (\<lambda>c'. map (\<lambda>r. (ID r, cid c')) (?L c')) (clubs (loaded rs)))))"
    unfolding members_def people_loaded by (subst club_members_loaded) (rule refl)
  also have "\<dots> = concat (map (\<lambda>c'. if cid c' = cid c then concat (map (\<lambda>r. ?F (ID r)) (?L c')) else [])
          (clubs (loaded rs)))"
    by (rule scan_blocks)
  also have "\<dots> = concat (map (\<lambda>r. ?F (ID r)) (?L c))"
    by (rule concat_select [OF _ assms(2)]) (simp add: clubs_loaded distinct_cids_numbered)
  also have "\<dots> = map person_of_row (?L c)"
    by (rule join_people [OF assms(1)]) simp
  finally show ?thesis .
qed

lemma get_club_members_loaded:
  assumes "distinct (map ID rs)"
  shows "get_club_members (loaded rs) d = map person_of_row (filter (\<lambda>r. d \<in> set (Clubs r)) rs)"
proof (cases "find (\<lambda>c. description c = d) (clubs (loaded rs))")
  case None
  then have "d \<notin> set (first_seen (concat (map Clubs rs)))"
    by (simp add: clubs_loaded find_club_None)
  then have "filter (\<lambda>r. d \<in> set (Clubs r)) rs = []"
    by (auto simp: set_first_seen filter_empty_conv)
  with None show ?thesis by (simp add: get_club_members_def)
next
  case (Some c)
  then have "c \<in> set (clubs (loaded rs))" "description c = d" by (auto simp: find_Some_iff)
  with Some members_loaded [OF assms this(1)] show ?thesis by (simp add: get_club_members_def)
qed

subsection \<open>Evaluation on the small frame\<close>

lemmas model_defs =
  load_data_from_csv_def clear_tables_def init_state_def make_person_def person_columns_def
  getcol_def person_of_row_def add_member_def commit_first_def insert_club_def next_id_def
  member_rows_def commit_friendships_def List.map_filter_def Let_def int64_def people_by_id_def

lemma ex_load: "load_data_from_csv (\<lambda>_. Inr ex_df) db ''members.csv'' = Inr ex_db"
  by (simp add: model_defs ex_df_def ex_rows_def ex_columns_def ex_db_def john_def amanda_def mark_def)

lemma ex_queries:
  "get_club_members ex_db ''Fitness Club'' = [john, amanda]"
  "get_friends_of_person ex_db ''John Rocha'' = [amanda]"
  "get_persons_who_consider_them_friend ex_db ''John Rocha'' = [mark]"
  by (simp_all add: get_club_members_def get_friends_of_person_def members_def friends_def
      get_persons_who_consider_them_friend_def people_by_id_def ex_db_def john_def amanda_def
      mark_def)

lemma load_from_empty:
  "load_data_from_csv read_csv db csv_path = load_data_from_csv read_csv empty_db csv_path'"
  by (simp add: load_data_from_csv_def clear_tables_empty)

lemma load_success:
  assumes "load_data_from_csv read_csv db csv_path = Inr db'"
    and "read_csv ''members.csv'' = Inr df"
  shows "loadable df \<and> db' = loaded (rows df)"
  using load_Inr_D [OF assms(1)] assms(2) by auto

lemma membership_rows_of_club:
  assumes "c \<in> set (clubs (loaded rs))"
  shows "map fst (filter (\<lambda>e. snd e = cid c) (club_members (loaded rs)))
     = map ID (filter (\<lambda>r. description c \<in> set (Clubs r)) rs)"
proof -
  let ?L = "\<lambda>c'. filter (\<lambda>r. description c' \<in> set (Clubs r)) rs"
  have b: "filter (\<lambda>e. snd e = j) (map (\<lambda>r. (ID r, i)) xs)
      = (if i = j then map (\<lambda>r. (ID r, i)) xs else [])" for i j and xs :: "row list"
    by (induction xs) auto
  have "filter (\<lambda>e. snd e = cid c) (club_members (loaded rs))
      = concat (map (\<lambda>c'. if cid c' = cid c then map (\<lambda>r. (ID r, cid c')) (?L c') else [])
          (clubs (loaded rs)))"
    by (subst club_members_loaded) (simp add: filter_concat comp_def b)
  also have "\<dots> = map (\<lambda>r. (ID r, cid c)) (?L c)"
    by (rule concat_select [OF _ assms]) (simp add: clubs_loaded distinct_cids_numbered)
  finally show ?thesis by (simp add: comp_def)
qed

lemma person_of_row_inj:
  "distinct (map ID rs) \<Longrightarrow> r \<in> set rs \<Longrightarrow> r' \<in> set rs \<Longrightarrow>
   person_of_row r = person_of_row r' \<Longrightarrow> r = r'"
proof -
  assume d: "distinct (map ID rs)" and r: "r \<in> set rs" "r' \<in> set rs"
    and "person_of_row r = person_of_row r'"
  then have "ID r = ID r'" by (metis pid_person_of_row)
  with d r show ?thesis by (meson distinct_map inj_onD)
qed

lemma find_None_empty: "(\<forall>x\<in>set xs. \<not> P x) \<Longrightarrow> find P xs = None"
  by (simp add: find_None_iff)

lemma name_person_of_row: "name (person_of_row r) = display_name r"
  by (simp add: person_of_row_def display_name_def)

lemma find_person_by_name:
  "find (\<lambda>p. name p = n) (map person_of_row rs)
     = map_option person_of_row (find (\<lambda>r. display_name r = n) rs)"
  by (induction rs) (simp_all add: name_person_of_row)

lemma insort_key_map:
  "insort_key f (g x) (map g xs) = map g (insort_key (\<lambda>y. f (g y)) x xs)"
  by (induction xs) simp_all

lemma sort_key_map: "sort_key f (map g xs) = map g (sort_key (\<lambda>y. f (g y)) xs)"
  by (induction xs) (simp_all add: insort_key_map)


lemma who_consider_simp:
  assumes "t \<in> set (people db)"
  shows "filter (\<lambda>p. list_ex (\<lambda>(a, b). a = pid p \<and>
                 list_ex (\<lambda>q. pid q = b \<and> pid q = pid t) (people db)) (friendships db))
            xs
     = filter (\<lambda>p. (pid p, pid t) \<in> set (friendships db)) xs"
proof (rule filter_cong [OF refl])
  fix p
  from assms
  show "list_ex (\<lambda>(a, b). a = pid p \<and> list_ex (\<lambda>q. pid q = b \<and> pid q = pid t) (people db))
          (friendships db)
      \<longleftrightarrow> (pid p, pid t) \<in> set (friendships db)"
    by (auto simp: list_ex_iff)
qed

subsection \<open>Friendship edges\<close>







lemma people_by_id_loaded: "people_by_id (loaded rs) = map person_of_row (sort_key ID rs)"
proof -
  show ?thesis
    by (simp add: people_by_id_def people_loaded sort_key_map pid_person_of_row)
qed





lemma unordered_load:
  "load_data_from_csv (\<lambda>_. Inr unordered_df) db ''members.csv'' = Inr unordered_db"
  by (simp add: model_defs unordered_df_def unordered_rows_def ex_columns_def unordered_db_def)

subsection \<open>Dangling friend ids\<close>








subsection \<open>The store after a load\<close>

lemma load_Inl_store:
  assumes "load_data_from_csv read_csv db csv_path = Inl (e, db')"
  shows "db' = empty_db \<or> (\<exists>df. read_csv ''members.csv'' = Inr df \<and> db' = pass1_db (rows df))"
proof (cases "read_csv ''members.csv''")
  case (Inl e')
  with assms show ?thesis by (simp add: load_read_error)
next
  case (Inr df)
  show ?thesis
  proof (cases "rows df = []")
    case True
    with Inr assms show ?thesis by (simp add: load_no_rows)
  next
    case False
    show ?thesis
    proof (cases "set phase1_columns \<subseteq> set (columns df)")
      case c: False
      from load_missing_phase1 [where read_csv = read_csv and db = db and csv_path = csv_path,
          OF Inr False c] assms
      show ?thesis by auto
    next
      case c: True
      from assms show ?thesis
        unfolding load_with_columns [where read_csv = read_csv, OF Inr c]
        by (auto simp: Inr split: if_splits)
    qed
  qed
qed

lemma store_after_load:
  "store_after (load_data_from_csv read_csv db csv_path) = empty_db \<or>
   (\<exists>df. read_csv ''members.csv'' = Inr df \<and>
      (store_after (load_data_from_csv read_csv db csv_path) = pass1_db (rows df) \<or>
       store_after (load_data_from_csv read_csv db csv_path) = loaded (rows df)))"
proof (cases "load_data_from_csv read_csv db csv_path")
  case (Inl x)
  obtain e db' where x: "x = (e, db')" by (cases x)
  from load_Inl_store [OF Inl [unfolded x]] show ?thesis
    by (auto simp: Inl x store_after_def)
next
  case (Inr db')
  from load_Inr_D [OF Inr] show ?thesis by (auto simp: Inr store_after_def)
qed

lemma loaded_from_rows:
  assumes "s = pass1_db rs \<or> s = loaded rs"
  shows "set (people s) \<subseteq> set (map person_of_row rs) \<and>
     set (map description (clubs s)) \<subseteq> set (concat (map Clubs rs)) \<and>
     (\<forall>e\<in>set (friendships s). \<exists>r\<in>set rs. fst e = ID r \<and> snd e \<in> set (Friendships r)) \<and>
     (\<forall>e\<in>set (club_members s). \<exists>r\<in>set rs. \<exists>c\<in>set (clubs s).
        e = (ID r, cid c) \<and> description c \<in> set (Clubs r))"
proof -
  have p: "people s = map person_of_row rs" and c: "clubs s = clubs (loaded rs)"
    and m: "club_members s = club_members (loaded rs)"
    and f: "friendships s = [] \<or> friendships s = friend_edges rs rs"
    using assms by (auto simp: loaded_def pass1_db_def Let_def)
  have 1: "set (map description (clubs s)) \<subseteq> set (concat (map Clubs rs))"
    by (simp add: c clubs_loaded descriptions_numbered set_first_seen)
  have 2: "\<forall>e\<in>set (friendships s). \<exists>r\<in>set rs. fst e = ID r \<and> snd e \<in> set (Friendships r)"
    using f by (auto simp: friend_edges_def)
  have 3: "\<forall>e\<in>set (club_members s). \<exists>r\<in>set rs. \<exists>c\<in>set (clubs s).
        e = (ID r, cid c) \<and> description c \<in> set (Clubs r)"
    unfolding m c by (subst club_members_loaded) auto
  from p 1 2 3 show ?thesis by simp
qed

lemma no_friendships_load:
  "load_data_from_csv (\<lambda>_. Inr no_friendships_df) db ''members.csv''
     = Inl (KeyError ''Friendships'', half_db)"
  by (simp add: model_defs no_friendships_df_def ex_rows_def half_db_def
      john_def amanda_def mark_def)

lemma twins_load:
  "load_data_from_csv (\<lambda>_. Inr twins_df) db ''members.csv''
     = Inl (IntegrityError ''people.id'', empty_db)"
  by (simp add: model_defs twins_df_def ex_columns_def empty_db_def)

section \<open>The claims\<close>

text \<open>
  C1. For every club description \<open>d\<close> that some record of a successfully loaded input
  lists, \<open>get_club_members\<close> returns exactly the persons of the records that list \<open>d\<close>, in
  the order of the records (the order in which the membership rows were created), with no
  duplicate; the person of a record that does not list \<open>d\<close> is absent. The result follows
  the order of the club's rows in \<open>club_members\<close>.
\<close>

theorem club_members_exact:
  assumes "load_data_from_csv read_csv db csv_path = Inr db'"
    and "read_csv ''members.csv'' = Inr df"
    and "a \<in> set (rows df)" and "d \<in> set (Clubs a)"
  shows "get_club_members db' d = map person_of_row (filter (\<lambda>r. d \<in> set (Clubs r)) (rows df)) \<and>
     distinct (get_club_members db' d) \<and>
     (\<forall>r\<in>set (rows df). person_of_row r \<in> set (get_club_members db' d) \<longleftrightarrow> d \<in> set (Clubs r)) \<and>
     (\<exists>c. find (\<lambda>c. description c = d) (clubs db') = Some c \<and>
        map pid (get_club_members db' d)
          = map fst (filter (\<lambda>e. snd e = cid c) (club_members db')))"
proof -
  let ?rs = "rows df"
  from load_success [OF assms(1,2)] have l: "loadable df" and db': "db' = loaded ?rs" by auto
  from l have ids: "distinct (map ID ?rs)" by (simp add: loadable_def)
  have eq: "get_club_members db' d = map person_of_row (filter (\<lambda>r. d \<in> set (Clubs r)) ?rs)"
    unfolding db' by (rule get_club_members_loaded [OF ids])
  have "distinct (map pid (get_club_members db' d))"
    using ids by (simp add: eq comp_def pid_person_of_row distinct_map_filter)
  then have dist: "distinct (get_club_members db' d)" by (simp add: distinct_map)
  have mem: "\<forall>r\<in>set ?rs. person_of_row r \<in> set (get_club_members db' d) \<longleftrightarrow> d \<in> set (Clubs r)"
  proof
    fix r assume r: "r \<in> set ?rs"
    show "person_of_row r \<in> set (get_club_members db' d) \<longleftrightarrow> d \<in> set (Clubs r)"
    proof
      assume "person_of_row r \<in> set (get_club_members db' d)"
      then obtain r' where r': "r' \<in> set ?rs" "d \<in> set (Clubs r')" "person_of_row r = person_of_row r'"
        by (auto simp: eq)
      with person_of_row_inj [OF ids r r'(1)] show "d \<in> set (Clubs r)" by simp
    next
      assume "d \<in> set (Clubs r)"
      with r show "person_of_row r \<in> set (get_club_members db' d)" by (simp add: eq)
    qed
  qed
  from assms(3,4) have "d \<in> set (first_seen (concat (map Clubs ?rs)))"
    by (auto simp: set_first_seen)
  then obtain c where c: "find (\<lambda>c. description c = d) (clubs db') = Some c"
    unfolding db' clubs_loaded using find_club_None [of d] by (metis not_Some_eq)
  then have cin: "c \<in> set (clubs (loaded ?rs))" and cd: "description c = d"
    by (auto simp: find_Some_iff db')
  have "map pid (get_club_members db' d) = map fst (filter (\<lambda>e. snd e = cid c) (club_members db'))"
    unfolding eq unfolding db' membership_rows_of_club [OF cin]
    by (simp add: comp_def pid_person_of_row cd)
  with eq dist mem c show ?thesis by blast
qed

theorem club_members_exact_witness:
  "load_data_from_csv (\<lambda>_. Inr ex_df) empty_db ''members.csv'' = Inr ex_db \<and>
   get_club_members ex_db ''Fitness Club'' = [john, amanda] \<and>
   distinct (get_club_members ex_db ''Fitness Club'')"
proof -
  have r: "(\<lambda>_. Inr ex_df) ''members.csv'' = (Inr ex_df :: py_error + dataframe)" by simp
  have a: "ex_rows ! 1 \<in> set (rows ex_df)" "''Fitness Club'' \<in> set (Clubs (ex_rows ! 1))"
    by (simp_all add: ex_df_def ex_rows_def)
  from club_members_exact [OF ex_load r a] ex_load show ?thesis
    by (simp add: ex_df_def ex_rows_def person_of_row_def john_def amanda_def)
qed







text \<open>
  C4. Every load first discards the people, clubs, friendships and memberships of the
  store: whatever the store held, the call behaves as on the empty store, so no row of a
  previous load survives, and what the store holds afterwards is derived from the frame
  just read (nothing, when the file cannot be read).
\<close>

theorem load_discards_store:
  "load_data_from_csv read_csv db csv_path = load_data_from_csv read_csv empty_db csv_path \<and>
   (\<forall>e. read_csv ''members.csv'' = Inl e \<longrightarrow>
      store_after (load_data_from_csv read_csv db csv_path) = empty_db) \<and>
   (\<forall>df. read_csv ''members.csv'' = Inr df \<longrightarrow>
      set (people (store_after (load_data_from_csv read_csv db csv_path)))
        \<subseteq> set (map person_of_row (rows df)) \<and>
      set (map description (clubs (store_after (load_data_from_csv read_csv db csv_path))))
        \<subseteq> set (concat (map Clubs (rows df))) \<and>
      (\<forall>e\<in>set (friendships (store_after (load_data_from_csv read_csv db csv_path))).
         \<exists>r\<in>set (rows df). fst e = ID r \<and> snd e \<in> set (Friendships r)) \<and>
      (\<forall>e\<in>set (club_members (store_after (load_data_from_csv read_csv db csv_path))).
         \<exists>r\<in>set (rows df).
           \<exists>c\<in>set (clubs (store_after (load_data_from_csv read_csv db csv_path))).
             e = (ID r, cid c) \<and> description c \<in> set (Clubs r)))"
proof (intro conjI allI impI)
  show "load_data_from_csv read_csv db csv_path = load_data_from_csv read_csv empty_db csv_path"
    by (rule load_from_empty)
next
  fix e assume "read_csv ''members.csv'' = Inl e"
  then show "store_after (load_data_from_csv read_csv db csv_path) = empty_db"
    by (simp add: load_read_error store_after_def)
next
  fix df assume r: "read_csv ''members.csv'' = Inr df"
  let ?s = "store_after (load_data_from_csv read_csv db csv_path)"
  from store_after_load [of read_csv db csv_path] r
  have "?s = empty_db \<or> ?s = pass1_db (rows df) \<or> ?s = loaded (rows df)" by auto
  then have "set (people ?s) \<subseteq> set (map person_of_row (rows df)) \<and>
     set (map description (clubs ?s)) \<subseteq> set (concat (map Clubs (rows df))) \<and>
     (\<forall>e\<in>set (friendships ?s). \<exists>r\<in>set (rows df). fst e = ID r \<and> snd e \<in> set (Friendships r)) \<and>
     (\<forall>e\<in>set (club_members ?s). \<exists>r\<in>set (rows df). \<exists>c\<in>set (clubs ?s).
        e = (ID r, cid c) \<and> description c \<in> set (Clubs r))"
  proof (elim disjE)
    assume "?s = empty_db"
    then show ?thesis by (simp add: empty_db_def)
  next
    assume "?s = pass1_db (rows df)"
    then show ?thesis by (intro loaded_from_rows) simp
  next
    assume "?s = loaded (rows df)"
    then show ?thesis by (intro loaded_from_rows) simp
  qed
  then show "set (people ?s) \<subseteq> set (map person_of_row (rows df))"
    and "set (map description (clubs ?s)) \<subseteq> set (concat (map Clubs (rows df)))"
    and "\<forall>e\<in>set (friendships ?s). \<exists>r\<in>set (rows df). fst e = ID r \<and> snd e \<in> set (Friendships r)"
    and "\<forall>e\<in>set (club_members ?s). \<exists>r\<in>set (rows df). \<exists>c\<in>set (clubs ?s).
        e = (ID r, cid c) \<and> description c \<in> set (Clubs r)"
    by blast+
qed

theorem load_discards_store_witness:
  "load_data_from_csv (\<lambda>_. Inr ex_df) old_db ''members.csv''
     = load_data_from_csv (\<lambda>_. Inr ex_df) empty_db ''members.csv'' \<and>
   load_data_from_csv (\<lambda>_. Inr ex_df) old_db ''members.csv'' = Inr ex_db \<and>
   set (people ex_db) \<subseteq> set (map person_of_row (rows ex_df)) \<and>
   store_after (load_data_from_csv (\<lambda>_. Inl (ReadError ''members.csv'')) old_db ''members.csv'')
     = empty_db"
proof -
  note w = load_discards_store [where read_csv = "\<lambda>_. Inr ex_df" and db = old_db
      and csv_path = "''members.csv''"]
  from w have 1: "load_data_from_csv (\<lambda>_. Inr ex_df) old_db ''members.csv''
     = load_data_from_csv (\<lambda>_. Inr ex_df) empty_db ''members.csv''" by blast
  from w have "set (people (store_after (load_data_from_csv (\<lambda>_. Inr ex_df) old_db ''members.csv'')))
      \<subseteq> set (map person_of_row (rows ex_df))" by blast
  then have 2: "set (people ex_db) \<subseteq> set (map person_of_row (rows ex_df))"
    by (simp add: ex_load store_after_def)
  from load_discards_store [where read_csv = "\<lambda>_. Inl (ReadError ''members.csv'')"
      and db = old_db and csv_path = "''members.csv''", THEN conjunct2, THEN conjunct1]
  have 3: "store_after (load_data_from_csv (\<lambda>_. Inl (ReadError ''members.csv'')) old_db
      ''members.csv'') = empty_db"
    by simp
  from 1 2 3 ex_load [of old_db] show ?thesis by simp
qed

text \<open>
  C5. For a description that no club has and a name that no person bears, each of the
  three queries returns the empty list; on the store that was never loaded every query
  returns the empty list. The queries have no failing branch.
\<close>

theorem unknown_key_empty:
  "((\<forall>c\<in>set (clubs db). description c \<noteq> d) \<longrightarrow> get_club_members db d = []) \<and>
   ((\<forall>p\<in>set (people db). name p \<noteq> n) \<longrightarrow>
      get_friends_of_person db n = [] \<and> get_persons_who_consider_them_friend db n = []) \<and>
   get_club_members empty_db d = [] \<and> get_friends_of_person empty_db n = [] \<and>
   get_persons_who_consider_them_friend empty_db n = []"
  by (simp add: get_club_members_def get_friends_of_person_def
      get_persons_who_consider_them_friend_def find_None_empty people_by_id_def empty_db_def)

theorem unknown_key_empty_witness:
  "get_club_members ex_db ''Nonexistent Club'' = [] \<and>
   get_friends_of_person ex_db ''Nobody'' = [] \<and>
   get_persons_who_consider_them_friend ex_db ''Nobody'' = [] \<and>
   get_club_members empty_db ''Fitness Club'' = [] \<and>
   get_friends_of_person empty_db ''John Rocha'' = [] \<and>
   get_persons_who_consider_them_friend empty_db ''John Rocha'' = []"
proof -
  have c: "\<forall>c\<in>set (clubs ex_db). description c \<noteq> ''Nonexistent Club''"
    by (simp add: ex_db_def)
  have p: "\<forall>p\<in>set (people ex_db). name p \<noteq> ''Nobody''"
    by (simp add: ex_db_def john_def amanda_def mark_def)
  from unknown_key_empty [of ex_db "''Nonexistent Club''" "''Nobody''"] c p
    unknown_key_empty [of empty_db "''Fitness Club''" "''John Rocha''"]
  show ?thesis by blast
qed

text \<open>
  C6, as stated, fails twice. A frame that lacks the \<^verbatim>\<open>Friendships\<close> column fails in the
  second loop, after the first commit: the store is left with the new people, clubs and
  memberships and no friendship, which is neither its previous content nor empty. And a
  frame with every column and parsable lists is fatal too when two rows share an id.
\<close>

theorem partial_load_counterexample:
  "load_data_from_csv (\<lambda>_. Inr no_friendships_df) old_db ''members.csv''
     = Inl (KeyError ''Friendships'', half_db) \<and>
   half_db \<noteq> old_db \<and> half_db \<noteq> empty_db \<and>
   people half_db = [john, amanda, mark] \<and> friendships half_db = [] \<and>
   set all_columns \<subseteq> set (columns twins_df) \<and>
   load_data_from_csv (\<lambda>_. Inr twins_df) old_db ''members.csv''
     = Inl (IntegrityError ''people.id'', empty_db)"
  using no_friendships_load [of old_db] twins_load [of old_db]
  by (simp add: half_db_def old_db_def empty_db_def twins_df_def ex_columns_def
      all_columns_def phase1_columns_def person_columns_def)

text \<open>
  C6 (amended). When the file cannot be read (no file, a list literal \<^verbatim>\<open>eval\<close> rejects)
  the load raises the reader's error and leaves the committed store empty. When the frame
  has a row and lacks one of \<^verbatim>\<open>ID\<close>, \<^verbatim>\<open>Name\<close>, \<^verbatim>\<open>Surname\<close>, \<^verbatim>\<open>Age\<close>,
  \<^verbatim>\<open>Gender\<close>, \<^verbatim>\<open>Location\<close>, \<^verbatim>\<open>Clubs\<close>, the load raises \<^verbatim>\<open>KeyError\<close> for the first
  of them that is missing and leaves the committed store empty. When it has a row, lacks
  only \<^verbatim>\<open>Friendships\<close> and passes the first commit (ids and ages in the 64-bit range,
  no id on two rows, no club twice in one record), the load raises \<^verbatim>\<open>KeyError\<close> for
  \<^verbatim>\<open>Friendships\<close> with the people, clubs and memberships of the frame committed and no
  friendship. Malformed input is not the only fatal case: a frame with the person columns
  and an id on two rows raises too, with the committed store empty. A load that raises
  leaves the committed store empty or as the first commit left it (the people of the
  frame, no friendship): what the store held before the call is discarded in every case.
\<close>

theorem load_failures:
  "(read_csv ''members.csv'' = Inl e \<longrightarrow>
      load_data_from_csv read_csv db csv_path = Inl (e, empty_db)) \<and>
   (read_csv ''members.csv'' = Inr df \<and> rows df \<noteq> [] \<and>
    find (\<lambda>c. c \<notin> set (columns df)) phase1_columns = Some c \<longrightarrow>
      load_data_from_csv read_csv db csv_path = Inl (KeyError c, empty_db)) \<and>
   (read_csv ''members.csv'' = Inr df \<and> rows df \<noteq> [] \<and>
    set phase1_columns \<subseteq> set (columns df) \<and> ''Friendships'' \<notin> set (columns df) \<and>
    (\<forall>r\<in>set (rows df). int64 (ID r) \<and> int64 (Age r)) \<and> distinct (map ID (rows df)) \<and>
    (\<forall>r\<in>set (rows df). distinct (Clubs r)) \<longrightarrow>
      load_data_from_csv read_csv db csv_path
        = Inl (KeyError ''Friendships'', pass1_db (rows df))) \<and>
   (read_csv ''members.csv'' = Inr df \<and> set phase1_columns \<subseteq> set (columns df) \<and>
    \<not> distinct (map ID (rows df)) \<longrightarrow>
      (\<exists>e'. load_data_from_csv read_csv db csv_path = Inl (e', empty_db))) \<and>
   (\<forall>e' db'. load_data_from_csv read_csv db csv_path = Inl (e', db') \<longrightarrow>
      db' = empty_db \<or>
      (\<exists>df'. read_csv ''members.csv'' = Inr df' \<and> db' = pass1_db (rows df') \<and>
         people db' = map person_of_row (rows df') \<and> friendships db' = []))"
proof (intro conjI impI allI)
  assume "read_csv ''members.csv'' = Inl e"
  then show "load_data_from_csv read_csv db csv_path = Inl (e, empty_db)"
    by (rule load_read_error)
next
  assume "read_csv ''members.csv'' = Inr df \<and> rows df \<noteq> [] \<and>
    find (\<lambda>c. c \<notin> set (columns df)) phase1_columns = Some c"
  then have a: "read_csv ''members.csv'' = Inr df" "rows df \<noteq> []"
    "find (\<lambda>c. c \<notin> set (columns df)) phase1_columns = Some c" by auto
  show "load_data_from_csv read_csv db csv_path = Inl (KeyError c, empty_db)"
    by (rule load_first_missing [where read_csv = read_csv, OF a])
next
  assume "read_csv ''members.csv'' = Inr df \<and> rows df \<noteq> [] \<and>
    set phase1_columns \<subseteq> set (columns df) \<and> ''Friendships'' \<notin> set (columns df) \<and>
    (\<forall>r\<in>set (rows df). int64 (ID r) \<and> int64 (Age r)) \<and> distinct (map ID (rows df)) \<and>
    (\<forall>r\<in>set (rows df). distinct (Clubs r))"
  then have a: "read_csv ''members.csv'' = Inr df" "set phase1_columns \<subseteq> set (columns df)"
    and b: "rows df \<noteq> []" "''Friendships'' \<notin> set (columns df)"
      "\<forall>r\<in>set (rows df). int64 (ID r) \<and> int64 (Age r)" "distinct (map ID (rows df))"
      "\<forall>r\<in>set (rows df). distinct (Clubs r)"
    by auto
  from b show "load_data_from_csv read_csv db csv_path
        = Inl (KeyError ''Friendships'', pass1_db (rows df))"
    unfolding load_with_columns [where read_csv = read_csv, OF a] by simp
next
  assume "read_csv ''members.csv'' = Inr df \<and> set phase1_columns \<subseteq> set (columns df) \<and>
    \<not> distinct (map ID (rows df))"
  then have a: "read_csv ''members.csv'' = Inr df" "set phase1_columns \<subseteq> set (columns df)"
    and b: "\<not> distinct (map ID (rows df))" by auto
  from b show "\<exists>e'. load_data_from_csv read_csv db csv_path = Inl (e', empty_db)"
    unfolding load_with_columns [where read_csv = read_csv, OF a] by simp
next
  fix e' db'
  assume "load_data_from_csv read_csv db csv_path = Inl (e', db')"
  from load_Inl_store [OF this]
  show "db' = empty_db \<or>
      (\<exists>df'. read_csv ''members.csv'' = Inr df' \<and> db' = pass1_db (rows df') \<and>
         people db' = map person_of_row (rows df') \<and> friendships db' = [])"
    by (auto simp: pass1_db_def Let_def)
qed

theorem load_failures_witness:
  "load_data_from_csv (\<lambda>_. Inl (ReadError ''members.csv'')) ex_db ''members.csv''
     = Inl (ReadError ''members.csv'', empty_db) \<and>
   load_data_from_csv (\<lambda>_. Inr no_clubs_df) ex_db ''members.csv''
     = Inl (KeyError ''Clubs'', empty_db) \<and>
   load_data_from_csv (\<lambda>_. Inr no_friendships_df) ex_db ''members.csv''
     = Inl (KeyError ''Friendships'', pass1_db ex_rows) \<and>
   pass1_db ex_rows = half_db \<and>
   \<not> distinct (map ID (rows twins_df)) \<and>
   store_after (load_data_from_csv (\<lambda>_. Inr twins_df) ex_db ''members.csv'') = empty_db \<and>
   half_db \<noteq> empty_db \<and>
   people half_db = map person_of_row ex_rows \<and> friendships half_db = []"
proof -
  have 1: "load_data_from_csv (\<lambda>_. Inl (ReadError ''members.csv'')) ex_db ''members.csv''
     = Inl (ReadError ''members.csv'', empty_db)"
    using load_failures [where read_csv = "\<lambda>_. Inl (ReadError ''members.csv'')"
        and e = "ReadError ''members.csv''" and db = ex_db and csv_path = "''members.csv''"]
    by simp
  have m: "rows no_clubs_df \<noteq> []"
    "find (\<lambda>c. c \<notin> set (columns no_clubs_df)) phase1_columns = Some ''Clubs''"
    by (simp_all add: no_clubs_df_def ex_rows_def phase1_columns_def person_columns_def)
  with load_failures [where read_csv = "\<lambda>_. Inr no_clubs_df" and df = no_clubs_df
      and c = "''Clubs''" and db = ex_db and csv_path = "''members.csv''"]
  have 2: "load_data_from_csv (\<lambda>_. Inr no_clubs_df) ex_db ''members.csv''
     = Inl (KeyError ''Clubs'', empty_db)"
    by simp
  have n: "rows no_friendships_df \<noteq> []"
    "set phase1_columns \<subseteq> set (columns no_friendships_df)"
    "''Friendships'' \<notin> set (columns no_friendships_df)"
    "\<forall>r\<in>set (rows no_friendships_df). int64 (ID r) \<and> int64 (Age r)"
    "distinct (map ID (rows no_friendships_df))"
    "\<forall>r\<in>set (rows no_friendships_df). distinct (Clubs r)"
    by (simp_all add: no_friendships_df_def ex_rows_def phase1_columns_def person_columns_def
        int64_def)
  with load_failures [where read_csv = "\<lambda>_. Inr no_friendships_df" and df = no_friendships_df
      and db = ex_db and csv_path = "''members.csv''"]
  have "load_data_from_csv (\<lambda>_. Inr no_friendships_df) ex_db ''members.csv''
        = Inl (KeyError ''Friendships'', pass1_db (rows no_friendships_df))"
    by simp
  then have 3: "load_data_from_csv (\<lambda>_. Inr no_friendships_df) ex_db ''members.csv''
     = Inl (KeyError ''Friendships'', pass1_db ex_rows)"
    by (simp add: no_friendships_df_def)
  then have 4: "pass1_db ex_rows = half_db" by (simp add: no_friendships_load)
  have t: "set phase1_columns \<subseteq> set (columns twins_df)"
    and 5: "\<not> distinct (map ID (rows twins_df))"
    by (simp_all add: twins_df_def ex_columns_def phase1_columns_def person_columns_def)
  with load_failures [where read_csv = "\<lambda>_. Inr twins_df" and df = twins_df
      and db = ex_db and csv_path = "''members.csv''"]
  have "\<exists>e'. load_data_from_csv (\<lambda>_. Inr twins_df) ex_db ''members.csv'' = Inl (e', empty_db)"
    by simp
  then have 6: "store_after (load_data_from_csv (\<lambda>_. Inr twins_df) ex_db ''members.csv'')
      = empty_db"
    by (auto simp: store_after_def)
  have 7: "half_db \<noteq> empty_db" by (simp add: half_db_def empty_db_def)
  from load_failures [where read_csv = "\<lambda>_. Inr no_friendships_df" and db = ex_db
      and csv_path = "''members.csv''", THEN conjunct2, THEN conjunct2, THEN conjunct2,
      THEN conjunct2, rule_format, OF no_friendships_load] 7
  have "\<exists>df'. Inr no_friendships_df = (Inr df' :: py_error + dataframe) \<and>
      half_db = pass1_db (rows df') \<and>
      people half_db = map person_of_row (rows df') \<and> friendships half_db = []"
    by simp
  then have 8: "people half_db = map person_of_row ex_rows \<and> friendships half_db = []"
    by (auto simp: no_friendships_df_def)
  from 1 2 3 4 5 6 7 8 show ?thesis by blast
qed

text \<open>
  C7. In a load that returns, the clubs of the store are the descriptions of the input in
  the order of their first occurrence over the whole pass, one club for each description,
  with the ids 1, 2, ... in that order; every listing of a description by a record is a
  membership row of that one club, and every membership row is such a listing.
\<close>

theorem clubs_first_seen:
  assumes "load_data_from_csv read_csv db csv_path = Inr db'"
    and "read_csv ''members.csv'' = Inr df"
  shows "map description (clubs db') = first_seen (concat (map Clubs (rows df))) \<and>
     distinct (map description (clubs db')) \<and>
     map cid (clubs db') = map (\<lambda>i. int i + 1) [0..<length (clubs db')] \<and>
     (\<forall>r\<in>set (rows df). \<forall>d\<in>set (Clubs r).
        \<exists>c\<in>set (clubs db'). description c = d \<and> (ID r, cid c) \<in> set (club_members db')) \<and>
     (\<forall>e\<in>set (club_members db').
        \<exists>r\<in>set (rows df). \<exists>c\<in>set (clubs db').
          e = (ID r, cid c) \<and> description c \<in> set (Clubs r))"
proof -
  let ?rs = "rows df"
  let ?K = "first_seen (concat (map Clubs ?rs))"
  from load_success [OF assms] have db': "db' = loaded ?rs" by simp
  have 1: "map description (clubs db') = ?K"
    by (simp add: db' clubs_loaded descriptions_numbered)
  have 2: "distinct (map description (clubs db'))"
    by (simp only: 1 distinct_first_seen)
  have 3: "map cid (clubs db') = map (\<lambda>i. int i + 1) [0..<length (clubs db')]"
    by (simp add: db' clubs_loaded cids_numbered length_numbered)
  have 4: "\<exists>c\<in>set (clubs db'). description c = d \<and> (ID r, cid c) \<in> set (club_members db')"
    if "r \<in> set ?rs" "d \<in> set (Clubs r)" for r d
  proof -
    from that have "d \<in> set (map description (clubs db'))"
      unfolding 1 by (auto simp: set_first_seen)
    then obtain c where c: "c \<in> set (clubs db')" "description c = d" by auto
    with that have "(ID r, cid c) \<in> set (club_members db')"
      unfolding db' by (subst club_members_loaded) auto
    with c show ?thesis by blast
  qed
  have 5: "\<exists>r\<in>set ?rs. \<exists>c\<in>set (clubs db'). e = (ID r, cid c) \<and> description c \<in> set (Clubs r)"
    if "e \<in> set (club_members db')" for e
    using that unfolding db' by (subst (asm) club_members_loaded) auto
  from 1 2 3 4 5 show ?thesis by blast
qed

theorem clubs_first_seen_witness:
  "load_data_from_csv (\<lambda>_. Inr ex_df) empty_db ''members.csv'' = Inr ex_db \<and>
   map description (clubs ex_db) = [''Fitness Club'', ''Art Club''] \<and>
   map cid (clubs ex_db) = [1, 2] \<and>
   distinct (map description (clubs ex_db))"
proof -
  have r: "(\<lambda>_. Inr ex_df) ''members.csv'' = (Inr ex_df :: py_error + dataframe)" by simp
  from clubs_first_seen [OF ex_load r] ex_load [of empty_db] show ?thesis
    by (simp add: ex_df_def ex_rows_def ex_db_def)
qed

text \<open>
  C8. Loading twice in succession from the same file gives what loading once gives: the
  second call has the same outcome and leaves the same store as the first, so each of the
  three queries returns the same list for every key.
\<close>

theorem reload_same:
  "load_data_from_csv read_csv (store_after (load_data_from_csv read_csv db p)) p'
     = load_data_from_csv read_csv db p \<and>
   get_club_members
       (store_after (load_data_from_csv read_csv (store_after (load_data_from_csv read_csv db p)) p')) k
     = get_club_members (store_after (load_data_from_csv read_csv db p)) k \<and>
   get_friends_of_person
       (store_after (load_data_from_csv read_csv (store_after (load_data_from_csv read_csv db p)) p')) k
     = get_friends_of_person (store_after (load_data_from_csv read_csv db p)) k \<and>
   get_persons_who_consider_them_friend
       (store_after (load_data_from_csv read_csv (store_after (load_data_from_csv read_csv db p)) p')) k
     = get_persons_who_consider_them_friend (store_after (load_data_from_csv read_csv db p)) k"
proof -
  have "load_data_from_csv read_csv (store_after (load_data_from_csv read_csv db p)) p'
     = load_data_from_csv read_csv db p"
    by (rule load_from_empty [THEN trans, OF load_from_empty [symmetric]])
  then show ?thesis by simp
qed

theorem reload_same_witness:
  "load_data_from_csv (\<lambda>_. Inr ex_df) empty_db ''members.csv'' = Inr ex_db \<and>
   load_data_from_csv (\<lambda>_. Inr ex_df) ex_db ''members.csv'' = Inr ex_db \<and>
   get_club_members (store_after (load_data_from_csv (\<lambda>_. Inr ex_df) ex_db ''members.csv''))
       ''Fitness Club''
     = [john, amanda]"
  using reload_same [of "\<lambda>_. Inr ex_df" empty_db "''members.csv''" "''members.csv''" "''Fitness Club''"]
    ex_load [of empty_db] ex_queries(1)
  by (simp add: store_after_def)

text \<open>
  C9. In a load that returns, each person is stored with the id, age, gender and location
  of its record and with the name \<^verbatim>\<open>Name\<close>, one space, \<^verbatim>\<open>Surname\<close>; the two name-keyed
  queries resolve their argument against these concatenated names: to the record of
  smallest id that bears the name, the people table being read in id order. The first
  query answers with the friends of that person, the second with the people, in id order,
  that have a friendship edge to that person's id.
\<close>

theorem persons_stored:
  assumes "load_data_from_csv read_csv db csv_path = Inr db'"
    and "read_csv ''members.csv'' = Inr df"
  shows "people db'
       = map (\<lambda>r. \<lparr>pid = ID r, name = Name r @ '' '' @ Surname r, age = Age r,
                   gender = Gender r, location = Location r\<rparr>) (rows df) \<and>
     get_friends_of_person db' n
       = (case find (\<lambda>r. Name r @ '' '' @ Surname r = n) (sort_key ID (rows df)) of
            None \<Rightarrow> []
          | Some a \<Rightarrow>
              friends db' \<lparr>pid = ID a, name = n, age = Age a, gender = Gender a,
                            location = Location a\<rparr>) \<and>
     get_persons_who_consider_them_friend db' n
       = (case find (\<lambda>r. Name r @ '' '' @ Surname r = n) (sort_key ID (rows df)) of
            None \<Rightarrow> []
          | Some a \<Rightarrow>
              filter (\<lambda>p. (pid p, ID a) \<in> set (friendships db')) (sort_key pid (people db')))"
proof -
  let ?rs = "rows df"
  let ?found = "find (\<lambda>r. Name r @ '' '' @ Surname r = n) (sort_key ID ?rs)"
  from load_success [OF assms] have db': "db' = loaded ?rs" by simp
  have p: "people db' = map person_of_row ?rs" by (simp add: db' people_loaded)
  have f: "find (\<lambda>p. name p = n) (people_by_id db') = map_option person_of_row ?found"
    unfolding db' people_by_id_loaded find_person_by_name by (simp add: display_name_def)
  have 1: "people db' = map (\<lambda>r. \<lparr>pid = ID r, name = Name r @ '' '' @ Surname r, age = Age r,
                   gender = Gender r, location = Location r\<rparr>) ?rs"
    by (simp add: p person_of_row_def)
  have 2: "get_friends_of_person db' n
       = (case ?found of
            None \<Rightarrow> []
          | Some a \<Rightarrow>
              friends db' \<lparr>pid = ID a, name = n, age = Age a, gender = Gender a,
                            location = Location a\<rparr>)"
  proof (cases ?found)
    case None
    then show ?thesis by (simp add: get_friends_of_person_def f)
  next
    case (Some a)
    then have "Name a @ '' '' @ Surname a = n" by (auto simp: find_Some_iff)
    with Some show ?thesis by (simp add: get_friends_of_person_def f person_of_row_def)
  qed
  have 3: "get_persons_who_consider_them_friend db' n
       = (case ?found of
            None \<Rightarrow> []
          | Some a \<Rightarrow>
              filter (\<lambda>p. (pid p, ID a) \<in> set (friendships db')) (sort_key pid (people db')))"
  proof (cases ?found)
    case None
    then show ?thesis by (simp add: get_persons_who_consider_them_friend_def f)
  next
    case (Some a)
    then obtain i where "i < length (sort_key ID ?rs)" "a = sort_key ID ?rs ! i"
      by (auto simp: find_Some_iff)
    then have "a \<in> set (sort_key ID ?rs)" by (metis nth_mem)
    then have "person_of_row a \<in> set (people db')" by (simp add: p)
    from who_consider_simp [OF this, of "people_by_id db'"] Some
    have "get_persons_who_consider_them_friend db' n
        = filter (\<lambda>p. (pid p, ID a) \<in> set (friendships db')) (people_by_id db')"
      by (simp add: get_persons_who_consider_them_friend_def f pid_person_of_row)
    with Some show ?thesis by (simp add: people_by_id_def)
  qed
  from 1 2 3 show ?thesis by blast
qed

theorem persons_stored_witness:
  "load_data_from_csv (\<lambda>_. Inr unordered_df) empty_db ''members.csv'' = Inr unordered_db \<and>
   map pid (people unordered_db) = [5, 1, 2] \<and>
   map name (people unordered_db) = [''Sam Lee'', ''Sam Lee'', ''Ann Poe''] \<and>
   map pid (get_friends_of_person unordered_db ''Sam Lee'') = [2, 5] \<and>
   map pid (get_persons_who_consider_them_friend unordered_db ''Sam Lee'') = [2, 5] \<and>
   get_friends_of_person unordered_db ''Ann Poe''
     = [\<lparr>pid = 1, name = ''Sam Lee'', age = 41, gender = ''Female'', location = ''NY''\<rparr>]"
proof -
  have r: "(\<lambda>_. Inr unordered_df) ''members.csv'' = (Inr unordered_df :: py_error + dataframe)"
    by simp
  have e: "friendships unordered_db = [(5, 1), (1, 5), (1, 2), (2, 1)]"
    by (simp add: unordered_db_def)
  note w = persons_stored [OF unordered_load r]
  from w [of "''Sam Lee''"]
  have 1: "map pid (people unordered_db) = [5, 1, 2]"
    and 2: "map name (people unordered_db) = [''Sam Lee'', ''Sam Lee'', ''Ann Poe'']"
    by (simp_all add: unordered_df_def unordered_rows_def)
  from w [of "''Sam Lee''", THEN conjunct2]
  have 3: "map pid (get_friends_of_person unordered_db ''Sam Lee'') = [2, 5]"
    and 4: "map pid (get_persons_who_consider_them_friend unordered_db ''Sam Lee'') = [2, 5]"
    by (simp_all add: unordered_df_def unordered_rows_def friends_def e)
      (simp_all add: unordered_db_def unordered_rows_def person_of_row_def)
  from w [of "''Ann Poe''", THEN conjunct2, THEN conjunct1]
  have 5: "get_friends_of_person unordered_db ''Ann Poe''
     = [\<lparr>pid = 1, name = ''Sam Lee'', age = 41, gender = ''Female'', location = ''NY''\<rparr>]"
    by (simp add: unordered_df_def unordered_rows_def friends_def e)
      (simp add: unordered_db_def unordered_rows_def person_of_row_def)
  from 1 2 3 4 5 unordered_load [of empty_db] show ?thesis by blast
qed

text \<open>
  C10. The load ignores \<^verbatim>\<open>csv_path\<close>: for every path passed, and whatever the other files
  hold, it reads \<^verbatim>\<open>members.csv\<close>.
\<close>

theorem csv_path_ignored:
  "load_data_from_csv read_csv db csv_path
     = load_data_from_csv (\<lambda>_. read_csv ''members.csv'') db csv_path'"
  by (simp add: load_data_from_csv_def)

theorem csv_path_ignored_witness:
  "load_data_from_csv (\<lambda>p. if p = ''members.csv'' then Inr ex_df else Inr other_df) empty_db
       ''other.csv''
     = Inr ex_db"
  using csv_path_ignored [of "\<lambda>p. if p = ''members.csv'' then Inr ex_df else Inr other_df"
      empty_db "''other.csv''" "''members.csv''"]
    ex_load [of empty_db]
  by simp

end
